theory Spec2Isabelle
  imports Main "HOL-Library.Multiset"
begin

section \<open>Data model\<close>

text \<open>
  Modelled from the spec: the declarations of \<^verbatim>\<open>Procurement\<close>, \<^verbatim>\<open>ProcurementStatus\<close>,
  \<^verbatim>\<open>ProcurementFilters\<close> and \<^verbatim>\<open>User\<close> (\<^verbatim>\<open>@/types/procurement\<close>) are not among the
  sources. The fields below are those of the spec's data model that the pages
  (\<^verbatim>\<open>src/pages/ProcurementList.tsx\<close>, the user management page) read and write, under the
  names the code uses. The status has the two values the record list page lists in
  \<^verbatim>\<open>statusOptions\<close>: \<^verbatim>\<open>'active'\<close> (displayed as Borrowed) and \<^verbatim>\<open>'archived'\<close>.
  A date is the number \<^verbatim>\<open>new Date(d).getTime()\<close> yields (milliseconds, an integer; an
  unparsable date, NaN, is outside the model). Numbers are integers. An optional field is
  an \<open>option\<close>, \<open>None\<close> standing for \<^verbatim>\<open>undefined\<close>.
\<close>

datatype ProcurementStatus = Active | Archived

record Procurement =
  id_p :: string
  prNumber :: string
  description :: string
  cabinetId :: string
  shelfId :: string
  folderId :: string
  status :: ProcurementStatus
  urgencyLevel :: string
  dateAdded :: int
  stackNumber :: "int option"
  borrowedBy :: "string option"
  division :: "string option"
  borrowedDate :: "string option"
  returnDate :: "string option"

section \<open>Array.prototype.sort and Map\<close>

text \<open>
  \<^verbatim>\<open>Array.prototype.sort(cmp)\<close> is a stable sort: \<open>a\<close> is placed before \<open>b\<close> when
  \<open>cmp a b < 0\<close>, after it when \<open>cmp a b > 0\<close>, and elements that compare equal keep their
  order. It is modelled by stable insertion sort. Where the comparator is a consistent
  ordering of the elements every conforming engine returns this list. Where it is not, the
  order is the engine's choice and need not be the model's; of such a list the theorems
  below use only that it is a permutation of the input.
\<close>

fun insertSorted :: "('a \<Rightarrow> 'a \<Rightarrow> int) \<Rightarrow> 'a \<Rightarrow> 'a list \<Rightarrow> 'a list" where
  "insertSorted cmp x [] = [x]"
| "insertSorted cmp x (y # ys) =
     (if cmp x y \<le> 0 then x # y # ys else y # insertSorted cmp x ys)"

fun sort_cmp :: "('a \<Rightarrow> 'a \<Rightarrow> int) \<Rightarrow> 'a list \<Rightarrow> 'a list" where
  "sort_cmp cmp [] = []"
| "sort_cmp cmp (x # xs) = insertSorted cmp x (sort_cmp cmp xs)"

text \<open>
  A JavaScript \<^verbatim>\<open>Map\<close> keeps its entries in insertion order; \<^verbatim>\<open>set\<close> on a key that is
  present replaces the value in place. \<^verbatim>\<open>get\<close> is \<open>map_of\<close>.
\<close>

fun mapSet :: "'k \<Rightarrow> 'v \<Rightarrow> ('k \<times> 'v) list \<Rightarrow> ('k \<times> 'v) list" where
  "mapSet k v [] = [(k, v)]"
| "mapSet k v ((k', v') # m) =
     (if k' = k then (k, v) # m else (k', v') # mapSet k v m)"

section \<open>Stack numbering\<close>

text \<open>
  \<^verbatim>\<open>a.stackNumber && b.stackNumber\<close> tests truthiness: a stack number that is undefined or
  0 counts as absent.
\<close>

definition hasStackNumber :: "Procurement \<Rightarrow> bool" where
  "hasStackNumber p = (case stackNumber p of None \<Rightarrow> False | Some n \<Rightarrow> n \<noteq> 0)"

definition stackValue :: "Procurement \<Rightarrow> int" where
  "stackValue p = (case stackNumber p of None \<Rightarrow> 0 | Some n \<Rightarrow> n)"

definition stackCompare :: "Procurement \<Rightarrow> Procurement \<Rightarrow> int" where
  "stackCompare a b =
     (if hasStackNumber a \<and> hasStackNumber b then stackValue a - stackValue b
      else dateAdded a - dateAdded b)"

definition availableInFolder :: "Procurement list \<Rightarrow> string \<Rightarrow> Procurement list" where
  "availableInFolder procurements fid =
     sort_cmp stackCompare
       (filter (\<lambda>p. folderId p = fid \<and> status p = Archived) procurements)"

text \<open>The \<^verbatim>\<open>forEach((p, index) => stackMap.set(p.id, index + 1))\<close> loop.\<close>

fun assignStack :: "Procurement list \<Rightarrow> nat \<Rightarrow> (string \<times> int) list \<Rightarrow> (string \<times> int) list" where
  "assignStack [] index stackMap = stackMap"
| "assignStack (p # ps) index stackMap =
     assignStack ps (Suc index) (mapSet (id_p p) (int index + 1) stackMap)"

definition calculateStackNumbers :: "Procurement list \<Rightarrow> string \<Rightarrow> (string \<times> int) list" where
  "calculateStackNumbers procurements fid =
     assignStack (availableInFolder procurements fid) 0 []"

text \<open>
  Two orders on records, for the statements about the sorted list. \<open>orderAsStated\<close> is the
  rule in the specification's words: by stack number when both records have one, by
  \<open>dateAdded\<close> otherwise. \<open>ruleOrder\<close> is the same rule with the comparator's test for
  "has one": the stack number is set and is not 0.
\<close>

definition orderAsStated :: "Procurement \<Rightarrow> Procurement \<Rightarrow> bool" where
  "orderAsStated a b =
     (case (stackNumber a, stackNumber b) of
        (Some m, Some n) \<Rightarrow> m \<le> n
      | _ \<Rightarrow> dateAdded a \<le> dateAdded b)"

definition ruleOrder :: "Procurement \<Rightarrow> Procurement \<Rightarrow> bool" where
  "ruleOrder a b =
     (case (stackNumber a, stackNumber b) of
        (Some m, Some n) \<Rightarrow> if m \<noteq> 0 \<and> n \<noteq> 0 then m \<le> n else dateAdded a \<le> dateAdded b
      | _ \<Rightarrow> dateAdded a \<le> dateAdded b)"

section \<open>The store client\<close>

text \<open>
  The store client (\<^verbatim>\<open>@/lib/storage\<close>) is an external collaborator. A call to it is
  recorded in \<open>calls\<close>, in the order issued, so that "no write was issued" is a statement
  about this log. Each call is asynchronous and may fail on its own: \<open>accepts n\<close> tells
  whether the call issued when \<open>n\<close> calls were already logged resolves (\<open>True\<close>) or rejects.
  A toast is a message shown to the user.
\<close>

datatype FieldUpdate =
    SetStatus ProcurementStatus
  | SetBorrowedBy string
  | SetDivision string
  | SetBorrowedDate string
  | SetReturnDate string
  | SetStackNumber "int option"

datatype UserStatus = UserActive | UserInactive

datatype StoreCall =
    UpdateProcurement string "FieldUpdate list"
  | DeleteUser string
  | UpdateUser string UserStatus

datatype Toast = ToastError string | ToastSuccess string

datatype Role = AdminRole | UserRole

record FormData =
  name :: string
  email :: string
  password :: string
  role :: Role
  status_u :: UserStatus

record User = FormData +
  id_u :: string

record World =
  procurementStore :: "Procurement list"
  userStore :: "User list"
  calls :: "StoreCall list"
  toasts :: "Toast list"

fun applyUpdate :: "FieldUpdate \<Rightarrow> Procurement \<Rightarrow> Procurement" where
  "applyUpdate (SetStatus s) p = p\<lparr>status := s\<rparr>"
| "applyUpdate (SetBorrowedBy b) p = p\<lparr>borrowedBy := Some b\<rparr>"
| "applyUpdate (SetDivision d) p = p\<lparr>division := Some d\<rparr>"
| "applyUpdate (SetBorrowedDate t) p = p\<lparr>borrowedDate := Some t\<rparr>"
| "applyUpdate (SetReturnDate t) p = p\<lparr>returnDate := Some t\<rparr>"
| "applyUpdate (SetStackNumber n) p = p\<lparr>stackNumber := n\<rparr>"

text \<open>
  Modelled from the spec: \<^verbatim>\<open>updateProcurement\<close> of \<^verbatim>\<open>@/lib/storage\<close> is not among the
  sources. The spec describes the store's writes as point writes by id, each asynchronous
  and independently fallible: an accepted update merges the given fields into the record
  with that id, a rejected one leaves the store as it was. The result's first component
  tells whether the call resolved.
\<close>

definition updateProcurement ::
    "(nat \<Rightarrow> bool) \<Rightarrow> string \<Rightarrow> FieldUpdate list \<Rightarrow> World \<Rightarrow> bool \<times> World" where
  "updateProcurement accepts pid updates w =
     (let w' = w\<lparr>calls := calls w @ [UpdateProcurement pid updates]\<rparr>
      in if accepts (length (calls w))
         then (True, w'\<lparr>procurementStore :=
                 map (\<lambda>p. if id_p p = pid then fold applyUpdate updates p else p)
                   (procurementStore w)\<rparr>)
         else (False, w'))"

text \<open>
  Modelled from the spec: \<^verbatim>\<open>deleteUser\<close> of \<^verbatim>\<open>@/lib/storage\<close> is not among the sources;
  a point delete by id, fallible as above.
\<close>

definition deleteUser :: "(nat \<Rightarrow> bool) \<Rightarrow> string \<Rightarrow> World \<Rightarrow> bool \<times> World" where
  "deleteUser accepts uid w =
     (let w' = w\<lparr>calls := calls w @ [DeleteUser uid]\<rparr>
      in if accepts (length (calls w))
         then (True, w'\<lparr>userStore := filter (\<lambda>u. id_u u \<noteq> uid) (userStore w)\<rparr>)
         else (False, w'))"

text \<open>
  Modelled from the spec: \<^verbatim>\<open>updateUser\<close> of \<^verbatim>\<open>@/lib/storage\<close> is not among the sources;
  a point write by id, fallible as above. Of the fields it can write only the status is
  modelled, the one \<^verbatim>\<open>toggleStatus\<close> writes.
\<close>

definition updateUser :: "(nat \<Rightarrow> bool) \<Rightarrow> string \<Rightarrow> UserStatus \<Rightarrow> World \<Rightarrow> bool \<times> World" where
  "updateUser accepts uid newStatus w =
     (let w' = w\<lparr>calls := calls w @ [UpdateUser uid newStatus]\<rparr>
      in if accepts (length (calls w))
         then (True, w'\<lparr>userStore :=
                 map (\<lambda>u. if id_u u = uid then u\<lparr>status_u := newStatus\<rparr> else u) (userStore w)\<rparr>)
         else (False, w'))"

definition toast :: "Toast \<Rightarrow> World \<Rightarrow> World" where
  "toast t w = w\<lparr>toasts := toasts w @ [t]\<rparr>"

section \<open>Renumbering a folder and the borrow transition\<close>

text \<open>
  \<^verbatim>\<open>updateStackNumbersForFolder\<close> reads \<^verbatim>\<open>procurements\<close>, the page's state variable. A
  handler sees the value that variable had in the render that created the handler: the
  argument \<open>procurements\<close> below is that snapshot, and it does not change while the
  handler runs, whatever the store is told in between. The two \<^verbatim>\<open>for\<close> loops stop at the
  first call that rejects (the \<^verbatim>\<open>await\<close> throws).
\<close>

fun writeStackNumbers :: "(nat \<Rightarrow> bool) \<Rightarrow> (string \<times> int) list \<Rightarrow> World \<Rightarrow> bool \<times> World" where
  "writeStackNumbers accepts [] w = (True, w)"
| "writeStackNumbers accepts ((procId, stackNum) # entries) w =
     (let r = updateProcurement accepts procId [SetStackNumber (Some stackNum)] w
      in if fst r then writeStackNumbers accepts entries (snd r) else r)"

fun clearBorrowed :: "(nat \<Rightarrow> bool) \<Rightarrow> Procurement list \<Rightarrow> World \<Rightarrow> bool \<times> World" where
  "clearBorrowed accepts [] w = (True, w)"
| "clearBorrowed accepts (proc # rest) w =
     (if stackNumber proc = None then clearBorrowed accepts rest w
      else let r = updateProcurement accepts (id_p proc) [SetStackNumber None] w
           in if fst r then clearBorrowed accepts rest (snd r) else r)"

definition updateStackNumbersForFolder ::
    "(nat \<Rightarrow> bool) \<Rightarrow> Procurement list \<Rightarrow> string \<Rightarrow> World \<Rightarrow> bool \<times> World" where
  "updateStackNumbersForFolder accepts procurements fid w =
     (let r = writeStackNumbers accepts (calculateStackNumbers procurements fid) w
      in if fst r
         then clearBorrowed accepts
                (filter (\<lambda>p. folderId p = fid \<and> status p = Active) procurements) (snd r)
         else r)"

record BorrowEditModal =
  procurement :: Procurement
  borrowedBy_m :: string
  division_m :: string

text \<open>
  \<^verbatim>\<open>saveBorrowChanges\<close>: \<open>now\<close> is \<^verbatim>\<open>new Date().toISOString()\<close>; the result is the new
  value of the \<^verbatim>\<open>borrowEditModal\<close> state and the world after the handler has run.
\<close>

definition saveBorrowChanges ::
    "(nat \<Rightarrow> bool) \<Rightarrow> string \<Rightarrow> Procurement list \<Rightarrow> BorrowEditModal option \<Rightarrow> World
       \<Rightarrow> BorrowEditModal option \<times> World" where
  "saveBorrowChanges accepts now procurements borrowEditModal w =
     (case borrowEditModal of
        None \<Rightarrow> (None, w)
      | Some m \<Rightarrow>
          if borrowedBy_m m = [] \<or> division_m m = []
          then (Some m, toast (ToastError ''Please fill in all required fields'') w)
          else
            let r1 = updateProcurement accepts (id_p (procurement m))
                       [SetStatus Active, SetBorrowedBy (borrowedBy_m m),
                        SetDivision (division_m m), SetBorrowedDate now] w;
                r2 = (if fst r1
                      then updateStackNumbersForFolder accepts procurements
                             (folderId (procurement m)) (snd r1)
                      else r1)
            in if fst r2
               then (None, toast (ToastSuccess ''File marked as borrowed'') (snd r2))
               else (Some m, toast (ToastError ''Failed to update file status'') (snd r2)))"

text \<open>What the borrow write leaves in a record, and a store in which every record with a
  given id carries it.\<close>

definition borrowedAs :: "string \<Rightarrow> string \<Rightarrow> string \<Rightarrow> Procurement \<Rightarrow> bool" where
  "borrowedAs b d t p =
     (status p = Active \<and> borrowedBy p = Some b \<and> division p = Some d \<and> borrowedDate p = Some t)"

definition marked :: "string \<Rightarrow> string \<Rightarrow> string \<Rightarrow> string \<Rightarrow> World \<Rightarrow> bool" where
  "marked pid b d t w = list_all (\<lambda>p. id_p p = pid \<longrightarrow> borrowedAs b d t p) (procurementStore w)"

text \<open>A store in which every record with a given id has a stack number.\<close>

definition numbered :: "string \<Rightarrow> World \<Rightarrow> bool" where
  "numbered pid w = list_all (\<lambda>p. id_p p = pid \<longrightarrow> stackNumber p \<noteq> None) (procurementStore w)"

section \<open>Strings\<close>

text \<open>
  Strings are lists of characters. \<^verbatim>\<open>toLowerCase\<close> is modelled on the ASCII letters;
  other characters are left as they are, where the engine also lowers letters outside
  ASCII. No theorem below turns on the difference: the search clause stands unchanged on
  both sides of each equality of record lists, and the email suffix tested is ASCII.
  \<^verbatim>\<open>includes\<close> is the substring test and \<^verbatim>\<open>endsWith\<close> the suffix test. A regular
  expression's \<^verbatim>\<open>test\<close> with a single character class asks whether some character of
  the string is in the class.
\<close>

definition toLowerChar :: "char \<Rightarrow> char" where
  "toLowerChar c =
     (case map_of (zip ''ABCDEFGHIJKLMNOPQRSTUVWXYZ'' ''abcdefghijklmnopqrstuvwxyz'') c of
        None \<Rightarrow> c
      | Some l \<Rightarrow> l)"

definition toLowerCase :: "string \<Rightarrow> string" where
  "toLowerCase s = map toLowerChar s"

fun startsWith :: "string \<Rightarrow> string \<Rightarrow> bool" where
  "startsWith s [] = True"
| "startsWith [] (c # cs) = False"
| "startsWith (x # xs) (c # cs) = (x = c \<and> startsWith xs cs)"

fun includesStr :: "string \<Rightarrow> string \<Rightarrow> bool" where
  "includesStr [] t = (t = [])"
| "includesStr (x # xs) t = (startsWith (x # xs) t \<or> includesStr xs t)"

definition endsWith :: "string \<Rightarrow> string \<Rightarrow> bool" where
  "endsWith s suffix =
     (length suffix \<le> length s \<and> drop (length s - length suffix) s = suffix)"

definition testClass :: "string \<Rightarrow> string \<Rightarrow> bool" where
  "testClass cls s = list_ex (\<lambda>c. c \<in> set cls) s"

definition upperCaseClass :: string where
  "upperCaseClass = ''ABCDEFGHIJKLMNOPQRSTUVWXYZ''"

definition digitClass :: string where
  "digitClass = ''0123456789''"

definition specialClass :: string where
  "specialClass = ''!@#$%^&*(),.?'' @ [CHR 0x22] @ '':{}|<>''"

section \<open>Filtering, sorting and paging the record list\<close>

record ProcurementFilters =
  search :: string
  cabinetId_f :: string
  shelfId_f :: string
  folderId_f :: string
  status_f :: string
  monthYear :: string
  urgencyLevel_f :: string

datatype SortField = SortName | SortPrNumber | SortDate | SortStackNumber

datatype SortDirection = Asc | Desc

definition statusString :: "ProcurementStatus \<Rightarrow> string" where
  "statusString s = (case s of Active \<Rightarrow> ''active'' | Archived \<Rightarrow> ''archived'')"

text \<open>
  The filter callback. \<^verbatim>\<open>!filters.cabinetId\<close> holds of the empty string only.
  \<open>statusFilters\<close> is the multi-select state, a list of strings.
\<close>

definition matchesSearch :: "ProcurementFilters \<Rightarrow> Procurement \<Rightarrow> bool" where
  "matchesSearch filters p =
     (includesStr (toLowerCase (prNumber p)) (toLowerCase (search filters))
      \<or> includesStr (toLowerCase (description p)) (toLowerCase (search filters)))"

definition matchesCabinet :: "ProcurementFilters \<Rightarrow> Procurement \<Rightarrow> bool" where
  "matchesCabinet filters p =
     (cabinetId_f filters = [] \<or> cabinetId_f filters = ''all_cabinets''
      \<or> cabinetId p = cabinetId_f filters)"

definition matchesShelf :: "ProcurementFilters \<Rightarrow> Procurement \<Rightarrow> bool" where
  "matchesShelf filters p =
     (shelfId_f filters = [] \<or> shelfId_f filters = ''all_shelves''
      \<or> shelfId p = shelfId_f filters)"

definition matchesFolder :: "ProcurementFilters \<Rightarrow> Procurement \<Rightarrow> bool" where
  "matchesFolder filters p =
     (folderId_f filters = [] \<or> folderId_f filters = ''all_folders''
      \<or> folderId p = folderId_f filters)"

definition matchesStatus :: "string list \<Rightarrow> Procurement \<Rightarrow> bool" where
  "matchesStatus statusFilters p =
     (length statusFilters = 0 \<or> statusString (status p) \<in> set statusFilters)"

definition matchesUrgency :: "ProcurementFilters \<Rightarrow> Procurement \<Rightarrow> bool" where
  "matchesUrgency filters p =
     (urgencyLevel_f filters = [] \<or> urgencyLevel_f filters = ''all_urgency''
      \<or> urgencyLevel p = urgencyLevel_f filters)"

definition matchesAll :: "ProcurementFilters \<Rightarrow> string list \<Rightarrow> Procurement \<Rightarrow> bool" where
  "matchesAll filters statusFilters p =
     (matchesSearch filters p \<and> matchesCabinet filters p \<and> matchesShelf filters p
      \<and> matchesFolder filters p \<and> matchesStatus statusFilters p \<and> matchesUrgency filters p)"

text \<open>
  The sort callback. \<^verbatim>\<open>localeCompare\<close> is the engine's collation, a parameter here.
  \<^verbatim>\<open>a.stackNumber || 999\<close> replaces a stack number that is undefined or 0 by 999.
\<close>

definition stackOr999 :: "Procurement \<Rightarrow> int" where
  "stackOr999 p = (case stackNumber p of None \<Rightarrow> 999 | Some n \<Rightarrow> if n = 0 then 999 else n)"

definition comparison :: "(string \<Rightarrow> string \<Rightarrow> int) \<Rightarrow> SortField \<Rightarrow> Procurement \<Rightarrow> Procurement \<Rightarrow> int" where
  "comparison localeCompare sortField a b =
     (case sortField of
        SortName \<Rightarrow> localeCompare (description a) (description b)
      | SortPrNumber \<Rightarrow> localeCompare (prNumber a) (prNumber b)
      | SortDate \<Rightarrow> dateAdded b - dateAdded a
      | SortStackNumber \<Rightarrow> stackOr999 a - stackOr999 b)"

definition sortCallback ::
    "(string \<Rightarrow> string \<Rightarrow> int) \<Rightarrow> SortField \<Rightarrow> SortDirection \<Rightarrow> Procurement \<Rightarrow> Procurement \<Rightarrow> int" where
  "sortCallback localeCompare sortField sortDirection a b =
     (case sortDirection of
        Asc \<Rightarrow> comparison localeCompare sortField a b
      | Desc \<Rightarrow> - comparison localeCompare sortField a b)"

definition filteredProcurements ::
    "(string \<Rightarrow> string \<Rightarrow> int) \<Rightarrow> Procurement list \<Rightarrow> ProcurementFilters \<Rightarrow> string list
       \<Rightarrow> SortField \<Rightarrow> SortDirection \<Rightarrow> Procurement list" where
  "filteredProcurements localeCompare procurements filters statusFilters sortField sortDirection =
     sort_cmp (sortCallback localeCompare sortField sortDirection)
       (filter (matchesAll filters statusFilters) procurements)"

text \<open>
  \<^verbatim>\<open>Array.prototype.slice(start, end)\<close>: a negative index counts from the end, and both
  indices are cut to the array's bounds. \<^verbatim>\<open>Math.ceil(n / 20)\<close> of a length \<open>n\<close> is
  \<open>- (- n div 20)\<close>.
\<close>

definition slice :: "'a list \<Rightarrow> int \<Rightarrow> int \<Rightarrow> 'a list" where
  "slice xs start end' =
     (let len = int (length xs);
          k = (if start < 0 then max (len + start) 0 else min start len);
          final = (if end' < 0 then max (len + end') 0 else min end' len)
      in take (nat (final - k)) (drop (nat k) xs))"

definition itemsPerPage :: int where
  "itemsPerPage = 20"

definition totalPages :: "'a list \<Rightarrow> int" where
  "totalPages filtered = - (- int (length filtered) div itemsPerPage)"

definition paginatedProcurements :: "'a list \<Rightarrow> int \<Rightarrow> 'a list" where
  "paginatedProcurements filtered currentPage =
     slice filtered ((currentPage - 1) * itemsPerPage) (currentPage * itemsPerPage)"

text \<open>The Previous and Next buttons, the only places that move \<^verbatim>\<open>currentPage\<close>
  (\<^verbatim>\<open>clearFilters\<close> resets it to 1).\<close>

definition previousPage :: "int \<Rightarrow> int" where
  "previousPage prev = max (prev - 1) 1"

definition nextPage :: "'a list \<Rightarrow> int \<Rightarrow> int" where
  "nextPage filtered prev = min (prev + 1) (totalPages filtered)"

section \<open>User management\<close>

text \<open>
  \<^verbatim>\<open>validateUser\<close> returns whether the form is accepted; the second component lists the
  toasts it raised.
\<close>

definition validateUser :: "'a FormData_scheme \<Rightarrow> bool \<times> Toast list" where
  "validateUser data =
     (if name data = [] \<or> email data = [] \<or> password data = []
      then (False, [ToastError ''Name, Email, and Password are required''])
      else if \<not> endsWith (toLowerCase (email data)) ''@gmail.com''
      then (False, [ToastError ''Email must be a '@gmail.com' address''])
      else if length (password data) < 8
      then (False, [ToastError ''Password must be at least 8 characters long''])
      else if \<not> testClass upperCaseClass (password data)
      then (False, [ToastError ''Password must contain at least one uppercase letter''])
      else if \<not> testClass digitClass (password data)
      then (False, [ToastError ''Password must contain at least one number''])
      else if \<not> testClass specialClass (password data)
      then (False, [ToastError ''Password must contain at least one special character''])
      else (True, []))"

text \<open>
  The acceptance condition in the specification's words, with the email's suffix compared
  as it is written; kept apart from \<open>validateUser\<close> to compare the two.
\<close>

definition validateUserAsStated :: "'a FormData_scheme \<Rightarrow> bool" where
  "validateUserAsStated data =
     (name data \<noteq> [] \<and> email data \<noteq> [] \<and> password data \<noteq> []
      \<and> endsWith (email data) ''@gmail.com''
      \<and> 8 \<le> length (password data)
      \<and> (\<exists>c\<in>set (password data). c \<in> set upperCaseClass)
      \<and> (\<exists>c\<in>set (password data). c \<in> set digitClass)
      \<and> (\<exists>c\<in>set (password data). c \<in> set specialClass))"

definition userStatusString :: "UserStatus \<Rightarrow> string" where
  "userStatusString s = (case s of UserActive \<Rightarrow> ''active'' | UserInactive \<Rightarrow> ''inactive'')"

text \<open>
  \<^verbatim>\<open>handleDeleteUser\<close>: \<open>users\<close> is the page's list of users and \<open>confirmed\<close> the answer
  to the \<^verbatim>\<open>confirm\<close> dialog. \<^verbatim>\<open>userToDelete?.email\<close> is undefined when no user has the id.
\<close>

definition handleDeleteUser ::
    "(nat \<Rightarrow> bool) \<Rightarrow> bool \<Rightarrow> User list \<Rightarrow> string \<Rightarrow> World \<Rightarrow> World" where
  "handleDeleteUser accepts confirmed users uid w =
     (let userToDelete = find (\<lambda>u. id_u u = uid) users
      in if map_option email userToDelete = Some ''admin@gmail.com''
         then toast (ToastError ''Cannot delete the main Admin user.'') w
         else if confirmed
         then (let r = deleteUser accepts uid w
               in if fst r then toast (ToastSuccess ''User deleted'') (snd r)
                  else toast (ToastError ''Failed to delete user'') (snd r))
         else w)"

text \<open>\<^verbatim>\<open>toggleStatus\<close> has no \<^verbatim>\<open>catch\<close>: a rejected call ends it without a toast.\<close>

definition toggleStatus :: "(nat \<Rightarrow> bool) \<Rightarrow> User \<Rightarrow> World \<Rightarrow> World" where
  "toggleStatus accepts user w =
     (if email user = ''admin@gmail.com''
      then toast (ToastError ''Cannot change status of main Admin user.'') w
      else let newStatus = (if status_u user = UserActive then UserInactive else UserActive);
               r = updateUser accepts (id_u user) newStatus w
           in if fst r then toast (ToastSuccess (''User set to '' @ userStatusString newStatus)) (snd r)
              else snd r)"

section \<open>Sample data\<close>

text \<open>Concrete records, forms and stores on which the theorems below are instantiated.\<close>

definition day1 :: Procurement where
  "day1 = \<lparr>id_p = ''r1'', prNumber = ''PR-1'', description = ''paper'', cabinetId = ''S1'',
     shelfId = ''C1'', folderId = ''X'', status = Archived, urgencyLevel = ''low'',
     dateAdded = 86400000, stackNumber = None, borrowedBy = None, division = None,
     borrowedDate = None, returnDate = None\<rparr>"

definition day2 :: Procurement where
  "day2 = day1\<lparr>id_p := ''r2'', prNumber := ''PR-2'', dateAdded := 172800000\<rparr>"

definition day3 :: Procurement where
  "day3 = day1\<lparr>id_p := ''r3'', status := Active\<rparr>"

definition filed :: Procurement where
  "filed = day1\<lparr>stackNumber := Some 1\<rparr>"

definition thousandth :: Procurement where
  "thousandth = day2\<lparr>stackNumber := Some 1000\<rparr>"

definition numberedRecord :: "nat \<Rightarrow> Procurement" where
  "numberedRecord n = day1\<lparr>id_p := replicate n CHR ''i'', dateAdded := int n\<rparr>"

definition twentyOne :: "Procurement list" where
  "twentyOne = map numberedRecord [1..<22]"

text \<open>
  Three archived records of folder X: stack number 5 added on day 1, no stack number added
  on day 2, stack number 1 added on day 3. A folder gets such a mix when a borrowed record
  is returned: the renumbering works on the snapshot taken before the return is written,
  so the returned record stays without a number beside the numbered ones.
\<close>

definition numberedOld :: Procurement where
  "numberedOld = day1\<lparr>id_p := ''ra'', stackNumber := Some 5, dateAdded := 86400000\<rparr>"

definition unnumberedMid :: Procurement where
  "unnumberedMid = day1\<lparr>id_p := ''rb'', stackNumber := None, dateAdded := 172800000\<rparr>"

definition numberedNew :: Procurement where
  "numberedNew = day1\<lparr>id_p := ''rc'', stackNumber := Some 1, dateAdded := 259200000\<rparr>"

definition zeroth :: Procurement where
  "zeroth = day2\<lparr>stackNumber := Some 0\<rparr>"

definition nowStamp :: string where
  "nowStamp = ''2026-01-01T00:00:00.000Z''"

definition world0 :: World where
  "world0 = \<lparr>procurementStore = [filed], userStore = [], calls = [], toasts = []\<rparr>"

definition borrowFiled :: BorrowEditModal where
  "borrowFiled = \<lparr>procurement = filed, borrowedBy_m = ''Ann'', division_m = ''Records''\<rparr>"

definition borrowNoDivision :: BorrowEditModal where
  "borrowNoDivision = \<lparr>procurement = filed, borrowedBy_m = ''Ann'', division_m = []\<rparr>"

definition allAccepted :: "nat \<Rightarrow> bool" where
  "allAccepted n = True"

definition noFilters :: ProcurementFilters where
  "noFilters = \<lparr>search = [], cabinetId_f = [], shelfId_f = [], folderId_f = [],
     status_f = [], monthYear = [], urgencyLevel_f = []\<rparr>"

definition byLength :: "string \<Rightarrow> string \<Rightarrow> int" where
  "byLength a b = int (length a) - int (length b)"

definition mainAdmin :: User where
  "mainAdmin = \<lparr>name = ''Admin'', email = ''admin@gmail.com'', password = ''Abc12345!'',
     role = AdminRole, status_u = UserActive, id_u = ''u1''\<rparr>"

definition clerk :: User where
  "clerk = \<lparr>name = ''Clerk'', email = ''clerk@gmail.com'', password = ''Abc12345!'',
     role = UserRole, status_u = UserActive, id_u = ''u2''\<rparr>"

definition userWorld :: World where
  "userWorld = \<lparr>procurementStore = [], userStore = [mainAdmin, clerk], calls = [], toasts = []\<rparr>"

definition otherDomainForm :: FormData where
  "otherDomainForm = \<lparr>name = ''A'', email = ''a@other.com'', password = ''Abc12345!'',
     role = UserRole, status_u = UserActive\<rparr>"

definition validForm :: FormData where
  "validForm = \<lparr>name = ''Valid'', email = ''Valid1!@gmail.com'', password = ''Abc12345!'',
     role = UserRole, status_u = UserActive\<rparr>"

definition upperCaseForm :: FormData where
  "upperCaseForm = \<lparr>name = ''A'', email = ''A@GMAIL.COM'', password = ''Abc12345!'',
     role = UserRole, status_u = UserActive\<rparr>"

section \<open>Facts about sorting and maps\<close>

lemma mset_insertSorted: "mset (insertSorted cmp x ys) = add_mset x (mset ys)"
  by (induction ys) auto

lemma mset_sort_cmp: "mset (sort_cmp cmp xs) = mset xs"
  by (induction xs) (auto simp: mset_insertSorted)

lemma set_sort_cmp: "set (sort_cmp cmp xs) = set xs"
  using mset_sort_cmp [of cmp xs] by (metis set_mset_mset)

lemma length_sort_cmp: "length (sort_cmp cmp xs) = length xs"
  using mset_sort_cmp [of cmp xs] by (metis size_mset)

lemma sorted_wrt_insertSorted:
  assumes tr: "transp R"
    and le: "\<And>b. b \<in> set ys \<Longrightarrow> cmp x b \<le> 0 \<Longrightarrow> R x b"
    and gt: "\<And>b. b \<in> set ys \<Longrightarrow> 0 < cmp x b \<Longrightarrow> R b x"
    and ys: "sorted_wrt R ys"
  shows "sorted_wrt R (insertSorted cmp x ys)"
  using le gt ys
proof (induction ys)
  case Nil
  show ?case by simp
next
  case (Cons y ys)
  show ?case
  proof (cases "cmp x y \<le> 0")
    case True
    then have "R x y" using Cons.prems(1) by simp
    moreover have "\<forall>z\<in>set ys. R y z" using Cons.prems(3) by simp
    ultimately have "\<forall>z\<in>set (y # ys). R x z"
      using tr by (auto dest: transpD)
    with True Cons.prems(3) show ?thesis by simp
  next
    case False
    then have "R y x" using Cons.prems(2) [of y] by simp
    moreover have "set (insertSorted cmp x ys) = insert x (set ys)"
      using mset_insertSorted [of cmp x ys] by (metis set_mset_mset set_mset_add_mset_insert)
    moreover have "sorted_wrt R (insertSorted cmp x ys)"
      using Cons.IH Cons.prems by simp
    ultimately show ?thesis using False Cons.prems(3) by auto
  qed
qed

lemma sorted_wrt_sort_cmp:
  assumes tr: "transp R"
    and le: "\<And>a b. a \<in> set xs \<Longrightarrow> b \<in> set xs \<Longrightarrow> cmp a b \<le> 0 \<Longrightarrow> R a b"
    and gt: "\<And>a b. a \<in> set xs \<Longrightarrow> b \<in> set xs \<Longrightarrow> 0 < cmp a b \<Longrightarrow> R b a"
  shows "sorted_wrt R (sort_cmp cmp xs)"
  using le gt
proof (induction xs)
  case Nil
  show ?case by simp
next
  case (Cons x xs)
  have ih: "sorted_wrt R (sort_cmp cmp xs)"
    using Cons.IH Cons.prems by simp
  show ?case
    using sorted_wrt_insertSorted [OF tr _ _ ih, of cmp x] Cons.prems
    by (simp add: set_sort_cmp)
qed

lemma sorted_wrt_insertSorted_on:
  assumes tr: "\<And>a b c. a \<in> S \<Longrightarrow> b \<in> S \<Longrightarrow> c \<in> S \<Longrightarrow> R a b \<Longrightarrow> R b c \<Longrightarrow> R a c"
    and x: "x \<in> S" and sub: "set ys \<subseteq> S"
    and le: "\<And>b. b \<in> set ys \<Longrightarrow> cmp x b \<le> 0 \<Longrightarrow> R x b"
    and gt: "\<And>b. b \<in> set ys \<Longrightarrow> 0 < cmp x b \<Longrightarrow> R b x"
    and ys: "sorted_wrt R ys"
  shows "sorted_wrt R (insertSorted cmp x ys)"
  using sub le gt ys
proof (induction ys)
  case Nil
  show ?case by simp
next
  case (Cons y ys)
  have yS: "y \<in> S" and ysS: "set ys \<subseteq> S" using Cons.prems(1) by auto
  show ?case
  proof (cases "cmp x y \<le> 0")
    case True
    then have xy: "R x y" using Cons.prems(2) by simp
    have "\<forall>z\<in>set ys. R x z"
    proof
      fix z assume z: "z \<in> set ys"
      then have "R y z" using Cons.prems(4) by simp
      with xy show "R x z" using tr [OF x yS] z ysS by blast
    qed
    with xy True Cons.prems(4) show ?thesis by simp
  next
    case False
    then have "R y x" using Cons.prems(3) [of y] by simp
    moreover have "set (insertSorted cmp x ys) = insert x (set ys)"
      using mset_insertSorted [of cmp x ys] by (metis set_mset_mset set_mset_add_mset_insert)
    moreover have "sorted_wrt R (insertSorted cmp x ys)"
      using Cons.IH ysS Cons.prems by simp
    ultimately show ?thesis using False Cons.prems(4) by auto
  qed
qed

lemma sorted_wrt_sort_cmp_on:
  assumes tr: "\<And>a b c. a \<in> S \<Longrightarrow> b \<in> S \<Longrightarrow> c \<in> S \<Longrightarrow> R a b \<Longrightarrow> R b c \<Longrightarrow> R a c"
    and sub: "set xs \<subseteq> S"
    and le: "\<And>a b. cmp a b \<le> 0 \<Longrightarrow> R a b"
    and gt: "\<And>a b. 0 < cmp a b \<Longrightarrow> R b a"
  shows "sorted_wrt R (sort_cmp cmp xs)"
  using sub
proof (induction xs)
  case Nil
  show ?case by simp
next
  case (Cons x xs)
  have ih: "sorted_wrt R (sort_cmp cmp xs)" using Cons by simp
  have "sorted_wrt R (insertSorted cmp x (sort_cmp cmp xs))"
  proof (rule sorted_wrt_insertSorted_on [where S = S])
    show "x \<in> S" using Cons.prems by simp
    show "set (sort_cmp cmp xs) \<subseteq> S" using Cons.prems by (simp add: set_sort_cmp)
  qed (use tr le gt ih in blast)+
  then show ?case by simp
qed

lemma map_of_mapSet: "map_of (mapSet k v m) = (map_of m)(k \<mapsto> v)"
  by (induction m) (auto simp: fun_eq_iff)

lemma dom_assignStack:
  "dom (map_of (assignStack ps i m)) = dom (map_of m) \<union> id_p ` set ps"
  by (induction ps arbitrary: i m) (auto simp: map_of_mapSet)

lemma assignStack_other:
  "k \<notin> id_p ` set ps \<Longrightarrow> map_of (assignStack ps i m) k = map_of m k"
  by (induction ps arbitrary: i m) (auto simp: map_of_mapSet)

lemma assignStack_last:
  assumes "j < length ps"
    and "\<forall>j'. j < j' \<and> j' < length ps \<longrightarrow> id_p (ps ! j') \<noteq> id_p (ps ! j)"
  shows "map_of (assignStack ps i m) (id_p (ps ! j)) = Some (int (i + j) + 1)"
  using assms
proof (induction ps arbitrary: i m j)
  case Nil
  then show ?case by simp
next
  case (Cons p ps)
  show ?case
  proof (cases j)
    case 0
    have "id_p p \<notin> id_p ` set ps"
    proof
      assume "id_p p \<in> id_p ` set ps"
      then obtain n where "n < length ps" "id_p (ps ! n) = id_p p"
        by (auto simp: in_set_conv_nth)
      with Cons.prems(2) 0 show False by (auto dest: spec [of _ "Suc n"])
    qed
    with 0 show ?thesis by (simp add: assignStack_other map_of_mapSet)
  next
    case (Suc n)
    have "n < length ps" using Cons.prems(1) Suc by simp
    moreover have "\<forall>j'. n < j' \<and> j' < length ps \<longrightarrow> id_p (ps ! j') \<noteq> id_p (ps ! n)"
    proof (intro allI impI)
      fix j' assume "n < j' \<and> j' < length ps"
      with Cons.prems(2) Suc show "id_p (ps ! j') \<noteq> id_p (ps ! n)"
        by (auto dest: spec [of _ "Suc j'"])
    qed
    ultimately have "map_of (assignStack ps (Suc i) (mapSet (id_p p) (int i + 1) m)) (id_p (ps ! n))
        = Some (int (Suc i + n) + 1)"
      by (rule Cons.IH)
    with Suc show ?thesis by simp
  qed
qed

section \<open>Stack numbering: the computed map\<close>

lemma availableInFolder_mset:
  "mset (availableInFolder ps fid) =
     mset (filter (\<lambda>p. folderId p = fid \<and> status p = Archived) ps)"
  by (simp add: availableInFolder_def mset_sort_cmp)

lemma availableInFolder_set:
  "set (availableInFolder ps fid) = {p \<in> set ps. folderId p = fid \<and> status p = Archived}"
  by (simp add: availableInFolder_def set_sort_cmp)

lemma availableInFolder_by_stack:
  assumes "\<forall>p\<in>set ps. folderId p = fid \<and> status p = Archived \<longrightarrow> hasStackNumber p"
  shows "sorted_wrt (\<lambda>a b. stackValue a \<le> stackValue b) (availableInFolder ps fid)"
  unfolding availableInFolder_def
proof (rule sorted_wrt_sort_cmp)
  show "transp (\<lambda>a b. stackValue a \<le> stackValue b)" by (auto simp: transp_def)
qed (use assms in \<open>auto simp: stackCompare_def\<close>)

lemma availableInFolder_by_date:
  assumes "\<forall>p\<in>set ps. folderId p = fid \<and> status p = Archived \<longrightarrow> \<not> hasStackNumber p"
  shows "sorted_wrt (\<lambda>a b. dateAdded a \<le> dateAdded b) (availableInFolder ps fid)"
  unfolding availableInFolder_def
proof (rule sorted_wrt_sort_cmp)
  show "transp (\<lambda>a b. dateAdded a \<le> dateAdded b)" by (auto simp: transp_def)
qed (use assms in \<open>auto simp: stackCompare_def\<close>)

lemma stackCompare_ruleOrder: "(stackCompare a b \<le> 0) = ruleOrder a b"
  by (auto simp: stackCompare_def hasStackNumber_def stackValue_def ruleOrder_def
      split: option.splits)

lemma stackCompare_neg: "stackCompare b a = - stackCompare a b"
  by (simp add: stackCompare_def)

lemma ruleOrder_as_stated:
  "stackNumber a \<noteq> Some 0 \<Longrightarrow> stackNumber b \<noteq> Some 0 \<Longrightarrow> ruleOrder a b = orderAsStated a b"
  by (auto simp: ruleOrder_def orderAsStated_def split: option.splits)

lemma availableInFolder_consistent:
  assumes "\<forall>a\<in>set ps. \<forall>b\<in>set ps. \<forall>c\<in>set ps.
      folderId a = fid \<and> status a = Archived \<and> folderId b = fid \<and> status b = Archived
      \<and> folderId c = fid \<and> status c = Archived \<and> ruleOrder a b \<and> ruleOrder b c \<longrightarrow> ruleOrder a c"
  shows "sorted_wrt ruleOrder (availableInFolder ps fid)"
  unfolding availableInFolder_def
proof (rule sorted_wrt_sort_cmp_on
    [where S = "{p \<in> set ps. folderId p = fid \<and> status p = Archived}"])
  fix a b c
  assume "a \<in> {p \<in> set ps. folderId p = fid \<and> status p = Archived}"
    "b \<in> {p \<in> set ps. folderId p = fid \<and> status p = Archived}"
    "c \<in> {p \<in> set ps. folderId p = fid \<and> status p = Archived}"
    "ruleOrder a b" "ruleOrder b c"
  with assms show "ruleOrder a c" by blast
next
  show "set (filter (\<lambda>p. folderId p = fid \<and> status p = Archived) ps)
      \<subseteq> {p \<in> set ps. folderId p = fid \<and> status p = Archived}" by auto
next
  fix a b assume "stackCompare a b \<le> 0"
  then show "ruleOrder a b" by (simp add: stackCompare_ruleOrder)
next
  fix a b assume "0 < stackCompare a b"
  then have "stackCompare b a \<le> 0" by (simp add: stackCompare_neg [of a b])
  then show "ruleOrder b a" by (simp add: stackCompare_ruleOrder)
qed

lemma availableInFolder_numbered:
  assumes "\<forall>p\<in>set ps. folderId p = fid \<and> status p = Archived \<longrightarrow>
             (\<exists>n. stackNumber p = Some n \<and> n \<noteq> 0)"
  shows "sorted_wrt (\<lambda>a b. \<exists>m n. stackNumber a = Some m \<and> stackNumber b = Some n \<and> m \<le> n)
           (availableInFolder ps fid)"
proof -
  have h: "\<forall>p\<in>set ps. folderId p = fid \<and> status p = Archived \<longrightarrow> hasStackNumber p"
    using assms by (auto simp: hasStackNumber_def)
  show ?thesis
  proof (rule sorted_wrt_mono_rel [OF _ availableInFolder_by_stack [OF h]])
    fix a b
    assume "a \<in> set (availableInFolder ps fid)" "b \<in> set (availableInFolder ps fid)"
      and le: "stackValue a \<le> stackValue b"
    then have "a \<in> set ps \<and> folderId a = fid \<and> status a = Archived"
      "b \<in> set ps \<and> folderId b = fid \<and> status b = Archived"
      by (simp_all add: availableInFolder_set)
    with assms have "\<exists>m. stackNumber a = Some m" "\<exists>n. stackNumber b = Some n"
      by blast+
    then obtain m n where "stackNumber a = Some m" "stackNumber b = Some n"
      by blast
    with le show "\<exists>m n. stackNumber a = Some m \<and> stackNumber b = Some n \<and> m \<le> n"
      by (simp add: stackValue_def)
  qed
qed

lemma availableInFolder_unnumbered:
  assumes "\<forall>p\<in>set ps. folderId p = fid \<and> status p = Archived \<longrightarrow>
             stackNumber p = None \<or> stackNumber p = Some 0"
  shows "sorted_wrt (\<lambda>a b. dateAdded a \<le> dateAdded b) (availableInFolder ps fid)"
proof (rule availableInFolder_by_date)
  show "\<forall>p\<in>set ps. folderId p = fid \<and> status p = Archived \<longrightarrow> \<not> hasStackNumber p"
    using assms by (auto simp: hasStackNumber_def)
qed

lemma stackMap_of_permutation:
  assumes "mset perm = mset inFolder"
  shows "dom (map_of (assignStack perm 0 [])) = id_p ` set inFolder
    \<and> (\<forall>j<length perm.
          (\<forall>j'. j < j' \<and> j' < length perm \<longrightarrow> id_p (perm ! j') \<noteq> id_p (perm ! j)) \<longrightarrow>
          map_of (assignStack perm 0 []) (id_p (perm ! j)) = Some (int j + 1))"
proof -
  have "set perm = set inFolder" using assms by (metis set_mset_mset)
  then have "dom (map_of (assignStack perm 0 [])) = id_p ` set inFolder"
    by (simp add: dom_assignStack)
  moreover have "\<forall>j<length perm.
          (\<forall>j'. j < j' \<and> j' < length perm \<longrightarrow> id_p (perm ! j') \<noteq> id_p (perm ! j)) \<longrightarrow>
          map_of (assignStack perm 0 []) (id_p (perm ! j)) = Some (int j + 1)"
    using assignStack_last [of _ perm 0 "[]"] by simp
  ultimately show ?thesis by blast
qed

lemma two_undated:
  assumes "filter (\<lambda>p. folderId p = fid \<and> status p = Archived) ps = [a, b]
         \<or> filter (\<lambda>p. folderId p = fid \<and> status p = Archived) ps = [b, a]"
    and "stackNumber a = None" "stackNumber b = None" "dateAdded a < dateAdded b"
  shows "availableInFolder ps fid = [a, b]"
  using assms by (auto simp: availableInFolder_def stackCompare_def hasStackNumber_def)

lemma two_map:
  assumes "availableInFolder ps fid = [a, b]" "id_p a \<noteq> id_p b"
  shows "calculateStackNumbers ps fid = [(id_p a, 1), (id_p b, 2)]"
  using assms by (simp add: calculateStackNumbers_def)

text \<open>
  Claim C1, as stated, fails. The claim has the records sorted by its rule for every
  collection. On the three archived records of folder X above the comparator runs in a
  circle (the first sorts before the second by date, the second before the third by date,
  the third before the first by stack number), and none of the six orders of the three
  records puts every pair in the order the rule asks for: whatever list the sort returns,
  it is not sorted by the rule.
\<close>

theorem calculateStackNumbers_cyclic_order:
  "filter (\<lambda>p. folderId p = ''X'' \<and> status p = Archived) [numberedOld, numberedNew, unnumberedMid]
     = [numberedOld, numberedNew, unnumberedMid]
   \<and> stackCompare numberedOld unnumberedMid < 0
   \<and> stackCompare unnumberedMid numberedNew < 0
   \<and> stackCompare numberedNew numberedOld < 0
   \<and> \<not> sorted_wrt orderAsStated [numberedOld, unnumberedMid, numberedNew]
   \<and> \<not> sorted_wrt orderAsStated [numberedOld, numberedNew, unnumberedMid]
   \<and> \<not> sorted_wrt orderAsStated [unnumberedMid, numberedOld, numberedNew]
   \<and> \<not> sorted_wrt orderAsStated [unnumberedMid, numberedNew, numberedOld]
   \<and> \<not> sorted_wrt orderAsStated [numberedNew, numberedOld, unnumberedMid]
   \<and> \<not> sorted_wrt orderAsStated [numberedNew, unnumberedMid, numberedOld]"
  by (simp add: numberedOld_def unnumberedMid_def numberedNew_def day1_def
      stackCompare_def hasStackNumber_def stackValue_def orderAsStated_def)

text \<open>
  A stack number 0 fails the comparator's test: of a record with stack number 0 added on
  day 2 and a record with stack number 1 added on day 1, the second comes first.
\<close>

lemma zero_counts_as_absent:
  "availableInFolder [zeroth, filed] ''X'' = [filed, zeroth]
   \<and> stackNumber zeroth = Some 0 \<and> stackNumber filed = Some 1
   \<and> \<not> orderAsStated filed zeroth"
  by (simp add: availableInFolder_def zeroth_def filed_def day1_def day2_def
      stackCompare_def hasStackNumber_def stackValue_def orderAsStated_def)

text \<open>
  Claim C1, amended. \<^verbatim>\<open>calculateStackNumbers\<close> keeps the records of the target folder
  whose status is archived, sorts them with the comparator \<open>stackCompare\<close> and maps each
  record id to its index plus one in the sorted list. With \<open>inFolder\<close> the archived records
  of the folder, \<open>ordered\<close> the sorted list and \<open>stackMap\<close> the result:
  \<^item> \<open>ordered\<close> is a permutation of \<open>inFolder\<close>, and \<open>stackMap\<close> is built from it;
  \<^item> the comparator puts \<open>a\<close> before or level with \<open>b\<close> exactly when \<open>ruleOrder a b\<close>: by
    stack number when both have one that is not 0, by \<open>dateAdded\<close> otherwise; it is
    antisymmetric; and for records whose stack number is not 0 this is the rule as the
    specification words it;
  \<^item> whenever that rule is transitive on the archived records of the folder, every pair of
    \<open>ordered\<close> is in the rule's order, the earlier record first: in particular by stack
    number when every record has one, and by \<open>dateAdded\<close> when none has one;
  \<^item> whatever order the sort returns, the map built from it has exactly the ids of
    \<open>inFolder\<close> as keys and maps the record at index \<open>j\<close> to \<open>j + 1\<close> (when an id occurs
    more than once, its last occurrence decides, as \<^verbatim>\<open>Map.set\<close> overwrites); so has
    \<open>stackMap\<close>;
  \<^item> two archived records of the folder without stack numbers, with different ids, map to
    1 (the one added earlier) and 2 (the one added later).
  Nothing is stated about the order of a folder on which the rule is not transitive.
\<close>

theorem calculateStackNumbers_positions:
  "let inFolder = filter (\<lambda>p. folderId p = fid \<and> status p = Archived) procurements;
       ordered = availableInFolder procurements fid;
       stackMap = calculateStackNumbers procurements fid
   in mset ordered = mset inFolder
    \<and> stackMap = assignStack ordered 0 []
    \<and> (\<forall>a b. (stackCompare a b \<le> 0) = ruleOrder a b
              \<and> stackCompare b a = - stackCompare a b)
    \<and> (\<forall>a b. stackNumber a \<noteq> Some 0 \<and> stackNumber b \<noteq> Some 0 \<longrightarrow>
              ruleOrder a b = orderAsStated a b)
    \<and> ((\<forall>a\<in>set inFolder. \<forall>b\<in>set inFolder. \<forall>c\<in>set inFolder.
           ruleOrder a b \<and> ruleOrder b c \<longrightarrow> ruleOrder a c) \<longrightarrow>
         sorted_wrt ruleOrder ordered)
    \<and> ((\<forall>p\<in>set inFolder. \<exists>n. stackNumber p = Some n \<and> n \<noteq> 0) \<longrightarrow>
         sorted_wrt
           (\<lambda>a b. \<exists>m n. stackNumber a = Some m \<and> stackNumber b = Some n \<and> m \<le> n) ordered)
    \<and> ((\<forall>p\<in>set inFolder. stackNumber p = None \<or> stackNumber p = Some 0) \<longrightarrow>
         sorted_wrt (\<lambda>a b. dateAdded a \<le> dateAdded b) ordered)
    \<and> (\<forall>perm. mset perm = mset inFolder \<longrightarrow>
          dom (map_of (assignStack perm 0 [])) = id_p ` set inFolder
          \<and> (\<forall>j<length perm.
                (\<forall>j'. j < j' \<and> j' < length perm \<longrightarrow> id_p (perm ! j') \<noteq> id_p (perm ! j)) \<longrightarrow>
                map_of (assignStack perm 0 []) (id_p (perm ! j)) = Some (int j + 1)))
    \<and> dom (map_of stackMap) = id_p ` set inFolder
    \<and> (\<forall>j<length ordered.
          (\<forall>j'. j < j' \<and> j' < length ordered \<longrightarrow> id_p (ordered ! j') \<noteq> id_p (ordered ! j)) \<longrightarrow>
          map_of stackMap (id_p (ordered ! j)) = Some (int j + 1))
    \<and> (\<forall>a b. (inFolder = [a, b] \<or> inFolder = [b, a])
            \<and> stackNumber a = None \<and> stackNumber b = None
            \<and> dateAdded a < dateAdded b \<and> id_p a \<noteq> id_p b \<longrightarrow>
          stackMap = [(id_p a, 1), (id_p b, 2)])"
proof -
  let ?inF = "filter (\<lambda>p. folderId p = fid \<and> status p = Archived) procurements"
  let ?s = "availableInFolder procurements fid"
  let ?m = "calculateStackNumbers procurements fid"
  have 1: "mset ?s = mset ?inF" by (rule availableInFolder_mset)
  have 2: "?m = assignStack ?s 0 []" by (simp add: calculateStackNumbers_def)
  have 3: "\<forall>a b. (stackCompare a b \<le> 0) = ruleOrder a b
              \<and> stackCompare b a = - stackCompare a b"
    using stackCompare_ruleOrder stackCompare_neg by blast
  have 4: "\<forall>a b. stackNumber a \<noteq> Some 0 \<and> stackNumber b \<noteq> Some 0 \<longrightarrow>
              ruleOrder a b = orderAsStated a b"
    using ruleOrder_as_stated by blast
  have 5: "(\<forall>a\<in>set ?inF. \<forall>b\<in>set ?inF. \<forall>c\<in>set ?inF.
           ruleOrder a b \<and> ruleOrder b c \<longrightarrow> ruleOrder a c) \<longrightarrow> sorted_wrt ruleOrder ?s"
  proof
    assume "\<forall>a\<in>set ?inF. \<forall>b\<in>set ?inF. \<forall>c\<in>set ?inF.
           ruleOrder a b \<and> ruleOrder b c \<longrightarrow> ruleOrder a c"
    then have "\<forall>a\<in>set procurements. \<forall>b\<in>set procurements. \<forall>c\<in>set procurements.
      folderId a = fid \<and> status a = Archived \<and> folderId b = fid \<and> status b = Archived
      \<and> folderId c = fid \<and> status c = Archived \<and> ruleOrder a b \<and> ruleOrder b c \<longrightarrow> ruleOrder a c"
      by (simp only: set_filter mem_Collect_eq) blast
    then show "sorted_wrt ruleOrder ?s" by (rule availableInFolder_consistent)
  qed
  have 6: "(\<forall>p\<in>set ?inF. \<exists>n. stackNumber p = Some n \<and> n \<noteq> 0) \<longrightarrow>
         sorted_wrt
           (\<lambda>a b. \<exists>m n. stackNumber a = Some m \<and> stackNumber b = Some n \<and> m \<le> n) ?s"
    using availableInFolder_numbered [of procurements fid] by simp
  have 7: "(\<forall>p\<in>set ?inF. stackNumber p = None \<or> stackNumber p = Some 0) \<longrightarrow>
         sorted_wrt (\<lambda>a b. dateAdded a \<le> dateAdded b) ?s"
    using availableInFolder_unnumbered [of procurements fid] by simp
  have 8: "\<forall>perm. mset perm = mset ?inF \<longrightarrow>
          dom (map_of (assignStack perm 0 [])) = id_p ` set ?inF
          \<and> (\<forall>j<length perm.
                (\<forall>j'. j < j' \<and> j' < length perm \<longrightarrow> id_p (perm ! j') \<noteq> id_p (perm ! j)) \<longrightarrow>
                map_of (assignStack perm 0 []) (id_p (perm ! j)) = Some (int j + 1))"
    using stackMap_of_permutation [of _ ?inF] by blast
  have 9: "dom (map_of ?m) = id_p ` set ?inF"
    by (simp add: calculateStackNumbers_def dom_assignStack availableInFolder_set)
  have 10: "\<forall>j<length ?s.
          (\<forall>j'. j < j' \<and> j' < length ?s \<longrightarrow> id_p (?s ! j') \<noteq> id_p (?s ! j)) \<longrightarrow>
          map_of ?m (id_p (?s ! j)) = Some (int j + 1)"
    unfolding calculateStackNumbers_def
    using assignStack_last [of _ ?s 0 "[]"] by simp
  have 11: "\<forall>a b. (?inF = [a, b] \<or> ?inF = [b, a])
            \<and> stackNumber a = None \<and> stackNumber b = None
            \<and> dateAdded a < dateAdded b \<and> id_p a \<noteq> id_p b \<longrightarrow>
          ?m = [(id_p a, 1), (id_p b, 2)]"
    using two_undated [of fid procurements] two_map [of procurements fid] by blast
  show ?thesis unfolding Let_def
    by (intro conjI) (rule 1 2 3 4 5 6 7 8 9 10 11)+
qed

theorem calculateStackNumbers_positions_witness:
  "filter (\<lambda>p. folderId p = ''X'' \<and> status p = Archived) [day2, day3, day1] = [day2, day1]
   \<and> stackNumber day1 = None \<and> stackNumber day2 = None
   \<and> dateAdded day1 < dateAdded day2 \<and> id_p day1 \<noteq> id_p day2
   \<and> map_of (calculateStackNumbers [day2, day3, day1] ''X'') ''r1'' = Some 1
   \<and> map_of (calculateStackNumbers [day2, day3, day1] ''X'') ''r2'' = Some 2
   \<and> sorted_wrt (\<lambda>a b. dateAdded a \<le> dateAdded b) (availableInFolder [day2, day3, day1] ''X'')
   \<and> mset [day1, day2] = mset [day2, day1]
   \<and> dom (map_of (assignStack [day1, day2] 0 [])) = {''r1'', ''r2''}
   \<and> filter (\<lambda>p. folderId p = ''X'' \<and> status p = Archived) [thousandth, filed] = [thousandth, filed]
   \<and> stackNumber thousandth = Some 1000 \<and> stackNumber filed = Some 1
   \<and> list_all (\<lambda>a. list_all (\<lambda>b. list_all (\<lambda>c. \<not> ruleOrder a b \<or> \<not> ruleOrder b c \<or> ruleOrder a c)
        [thousandth, filed]) [thousandth, filed]) [thousandth, filed]
   \<and> sorted_wrt ruleOrder (availableInFolder [thousandth, filed] ''X'')
   \<and> sorted_wrt (\<lambda>a b. \<exists>m n. stackNumber a = Some m \<and> stackNumber b = Some n \<and> m \<le> n)
        (availableInFolder [thousandth, filed] ''X'')
   \<and> ruleOrder filed thousandth = orderAsStated filed thousandth"
proof -
  define ps where "ps = [day2, day3, day1]"
  define qs where "qs = [thousandth, filed]"
  have f: "filter (\<lambda>p. folderId p = ''X'' \<and> status p = Archived) ps = [day2, day1]"
    by (simp add: ps_def day1_def day2_def day3_def)
  have g: "filter (\<lambda>p. folderId p = ''X'' \<and> status p = Archived) qs = [thousandth, filed]"
    by (simp add: qs_def day1_def day2_def thousandth_def filed_def)
  have h1: "stackNumber day1 = None" and h2: "stackNumber day2 = None"
    and h3: "dateAdded day1 < dateAdded day2" and h4: "id_p day1 \<noteq> id_p day2"
    by (simp_all add: day1_def day2_def)
  have k1: "stackNumber thousandth = Some 1000" and k2: "stackNumber filed = Some 1"
    by (simp_all add: thousandth_def filed_def day1_def day2_def)
  have tr: "list_all (\<lambda>a. list_all (\<lambda>b. list_all (\<lambda>c. \<not> ruleOrder a b \<or> \<not> ruleOrder b c \<or> ruleOrder a c)
        [thousandth, filed]) [thousandth, filed]) [thousandth, filed]"
    by (simp add: ruleOrder_def k1 k2)
  have p: "mset [day1, day2] = mset [day2, day1]" by simp
  note t = calculateStackNumbers_positions [of "''X''" ps, unfolded Let_def f]
  note u = calculateStackNumbers_positions [of "''X''" qs, unfolded Let_def g]
  note t' = t [THEN conjunct2, THEN conjunct2, THEN conjunct2, THEN conjunct2, THEN conjunct2,
      THEN conjunct2]
  note u' = u [THEN conjunct2, THEN conjunct2, THEN conjunct2]
  have "calculateStackNumbers ps ''X'' = [(id_p day1, 1), (id_p day2, 2)]"
    using t' [THEN conjunct2, THEN conjunct2, THEN conjunct2, THEN conjunct2,
        THEN spec, THEN spec, THEN mp, of day1 day2] h1 h2 h3 h4
    by simp
  then have 1: "map_of (calculateStackNumbers ps ''X'') ''r1'' = Some 1"
    and 12: "map_of (calculateStackNumbers ps ''X'') ''r2'' = Some 2"
    by (simp_all add: day1_def day2_def)
  have 2: "sorted_wrt (\<lambda>a b. dateAdded a \<le> dateAdded b) (availableInFolder ps ''X'')"
    using t' [THEN conjunct1, THEN mp] h1 h2 by simp
  have "dom (map_of (assignStack [day1, day2] 0 [])) = id_p ` set [day2, day1]"
    using t' [THEN conjunct2, THEN conjunct1, THEN spec, THEN mp, THEN conjunct1, OF p] .
  then have 3: "dom (map_of (assignStack [day1, day2] 0 [])) = {''r1'', ''r2''}"
    by (simp add: day1_def day2_def insert_commute)
  have c: "\<forall>a\<in>set [thousandth, filed]. \<forall>b\<in>set [thousandth, filed].
        \<forall>c\<in>set [thousandth, filed]. ruleOrder a b \<and> ruleOrder b c \<longrightarrow> ruleOrder a c"
    using tr unfolding list_all_iff by blast
  have 4: "sorted_wrt ruleOrder (availableInFolder qs ''X'')"
    using u' [THEN conjunct2, THEN conjunct1, THEN mp, OF c] .
  have 5: "sorted_wrt (\<lambda>a b. \<exists>m n. stackNumber a = Some m \<and> stackNumber b = Some n \<and> m \<le> n)
        (availableInFolder qs ''X'')"
    using u' [THEN conjunct2, THEN conjunct2, THEN conjunct1, THEN mp] k1 k2 by simp
  have 6: "ruleOrder filed thousandth = orderAsStated filed thousandth"
    using u' [THEN conjunct1, THEN spec, THEN spec, THEN mp, of filed thousandth] k1 k2 by simp
  show ?thesis
    by (intro conjI)
       (rule f [unfolded ps_def] g [unfolded qs_def] h1 h2 h3 h4 k1 k2 tr p
          1 [unfolded ps_def] 12 [unfolded ps_def] 2 [unfolded ps_def] 3
          4 [unfolded qs_def] 5 [unfolded qs_def] 6)+
qed

section \<open>The borrow transition\<close>

lemma calls_updateProcurement:
  "calls (snd (updateProcurement accepts pid ups w)) = calls w @ [UpdateProcurement pid ups]"
  by (simp add: updateProcurement_def Let_def)

lemma calls_writeStackNumbers:
  "\<exists>rest. calls (snd (writeStackNumbers accepts es w)) = calls w @ rest"
proof (induction es arbitrary: w)
  case Nil
  show ?case by simp
next
  case (Cons e es)
  obtain procId stackNum where e: "e = (procId, stackNum)" by (cases e)
  let ?r = "updateProcurement accepts procId [SetStackNumber (Some stackNum)] w"
  from Cons.IH [of "snd ?r"] obtain rest
    where "calls (snd (writeStackNumbers accepts es (snd ?r))) = calls (snd ?r) @ rest" ..
  then show ?case
    by (simp add: e Let_def calls_updateProcurement)
qed

lemma calls_clearBorrowed:
  "\<exists>rest. calls (snd (clearBorrowed accepts ps w)) = calls w @ rest"
proof (induction ps arbitrary: w)
  case Nil
  show ?case by simp
next
  case (Cons p ps)
  let ?r = "updateProcurement accepts (id_p p) [SetStackNumber None] w"
  from Cons.IH [of "snd ?r"] obtain rest
    where "calls (snd (clearBorrowed accepts ps (snd ?r))) = calls (snd ?r) @ rest" ..
  with Cons.IH [of w] show ?case
    by (simp add: Let_def calls_updateProcurement)
qed

lemma calls_updateStackNumbersForFolder:
  "\<exists>rest. calls (snd (updateStackNumbersForFolder accepts ps fid w)) = calls w @ rest"
proof -
  let ?r = "writeStackNumbers accepts (calculateStackNumbers ps fid) w"
  obtain r1 where r1: "calls (snd ?r) = calls w @ r1"
    using calls_writeStackNumbers by blast
  obtain r2 where "calls (snd (clearBorrowed accepts
      (filter (\<lambda>p. folderId p = fid \<and> status p = Active) ps) (snd ?r))) = calls (snd ?r) @ r2"
    using calls_clearBorrowed by blast
  with r1 show ?thesis
    by (simp add: updateStackNumbersForFolder_def Let_def)
qed

lemma saveBorrowChanges_first_call:
  assumes "borrowedBy_m m \<noteq> []" "division_m m \<noteq> []"
  shows "\<exists>rest. calls (snd (saveBorrowChanges accepts now ps (Some m) w)) =
      calls w @ UpdateProcurement (id_p (procurement m))
        [SetStatus Active, SetBorrowedBy (borrowedBy_m m), SetDivision (division_m m),
         SetBorrowedDate now] # rest"
proof -
  let ?r1 = "updateProcurement accepts (id_p (procurement m))
     [SetStatus Active, SetBorrowedBy (borrowedBy_m m), SetDivision (division_m m),
      SetBorrowedDate now] w"
  obtain rest where "calls (snd (updateStackNumbersForFolder accepts ps
       (folderId (procurement m)) (snd ?r1))) = calls (snd ?r1) @ rest"
    using calls_updateStackNumbersForFolder by blast
  then show ?thesis using assms
    by (simp add: saveBorrowChanges_def Let_def toast_def calls_updateProcurement)
qed

lemma store_updateProcurement:
  "procurementStore (snd (updateProcurement accepts pid ups w)) =
     (if accepts (length (calls w))
      then map (\<lambda>p. if id_p p = pid then fold applyUpdate ups p else p) (procurementStore w)
      else procurementStore w)"
  by (simp add: updateProcurement_def Let_def)

lemma borrowedAs_stack: "borrowedAs b d t (p\<lparr>stackNumber := n\<rparr>) = borrowedAs b d t p"
  by (simp add: borrowedAs_def)

lemma marked_stack_update:
  assumes "marked pid b d t w"
  shows "marked pid b d t (snd (updateProcurement accepts pid' [SetStackNumber n] w))"
proof -
  have "\<And>p. (id_p p = pid \<longrightarrow> borrowedAs b d t p) \<Longrightarrow>
      (id_p (if id_p p = pid' then fold applyUpdate [SetStackNumber n] p else p) = pid \<longrightarrow>
       borrowedAs b d t (if id_p p = pid' then fold applyUpdate [SetStackNumber n] p else p))"
    by (simp add: borrowedAs_stack)
  then show ?thesis
    using assms unfolding marked_def store_updateProcurement list_all_iff
    by (cases "accepts (length (calls w))") (simp_all only: if_True if_False set_map ball_simps, blast+)
qed

lemma marked_writeStackNumbers:
  "marked pid b d t w \<Longrightarrow> marked pid b d t (snd (writeStackNumbers accepts es w))"
proof (induction es arbitrary: w)
  case Nil
  then show ?case by simp
next
  case (Cons e es)
  obtain procId stackNum where e: "e = (procId, stackNum)" by (cases e)
  let ?r = "updateProcurement accepts procId [SetStackNumber (Some stackNum)] w"
  have m: "marked pid b d t (snd ?r)"
    using Cons.prems by (rule marked_stack_update)
  show ?case
  proof (cases "fst ?r")
    case True
    then show ?thesis using Cons.IH [OF m] by (simp add: e Let_def)
  next
    case False
    then show ?thesis using m by (simp add: e Let_def)
  qed
qed

lemma marked_clearBorrowed:
  "marked pid b d t w \<Longrightarrow> marked pid b d t (snd (clearBorrowed accepts ps w))"
proof (induction ps arbitrary: w)
  case Nil
  then show ?case by simp
next
  case (Cons p ps)
  let ?r = "updateProcurement accepts (id_p p) [SetStackNumber None] w"
  have m: "marked pid b d t (snd ?r)"
    using Cons.prems by (rule marked_stack_update)
  show ?case
  proof (cases "stackNumber p = None")
    case True
    then show ?thesis using Cons.IH [OF Cons.prems] by simp
  next
    case some: False
    show ?thesis
    proof (cases "fst ?r")
      case True
      then show ?thesis using Cons.IH [OF m] by (simp add: Let_def some)
    next
      case False
      then show ?thesis using m by (simp add: Let_def some)
    qed
  qed
qed

lemma marked_updateStackNumbersForFolder:
  assumes "marked pid b d t w"
  shows "marked pid b d t (snd (updateStackNumbersForFolder accepts ps fid w))"
proof -
  let ?r = "writeStackNumbers accepts (calculateStackNumbers ps fid) w"
  have m: "marked pid b d t (snd ?r)"
    using assms by (rule marked_writeStackNumbers)
  show ?thesis
  proof (cases "fst ?r")
    case True
    then show ?thesis
      using marked_clearBorrowed [OF m] by (simp add: updateStackNumbersForFolder_def Let_def)
  next
    case False
    then show ?thesis using m by (simp add: updateStackNumbersForFolder_def Let_def)
  qed
qed

lemma borrowedAs_write:
  "borrowedAs b d t
     (fold applyUpdate [SetStatus Active, SetBorrowedBy b, SetDivision d, SetBorrowedDate t] p)"
  by (simp add: borrowedAs_def)

lemma marked_borrow_write:
  assumes "accepts (length (calls w))"
  shows "marked pid b d t (snd (updateProcurement accepts pid
        [SetStatus Active, SetBorrowedBy b, SetDivision d, SetBorrowedDate t] w))"
  unfolding marked_def store_updateProcurement list_all_iff
  using assms borrowedAs_write by (simp only: if_True set_map ball_simps) simp

lemma marked_toast: "marked pid b d t (toast x w) = marked pid b d t w"
  by (simp add: marked_def toast_def)

lemma saveBorrowChanges_marked:
  assumes "borrowedBy_m m \<noteq> []" "division_m m \<noteq> []" "accepts (length (calls w))"
  shows "marked (id_p (procurement m)) (borrowedBy_m m) (division_m m) now
           (snd (saveBorrowChanges accepts now ps (Some m) w))"
proof -
  let ?r1 = "updateProcurement accepts (id_p (procurement m))
     [SetStatus Active, SetBorrowedBy (borrowedBy_m m), SetDivision (division_m m),
      SetBorrowedDate now] w"
  let ?r2 = "updateStackNumbersForFolder accepts ps (folderId (procurement m)) (snd ?r1)"
  have f: "fst ?r1" using assms(3) by (simp add: updateProcurement_def Let_def)
  have "marked (id_p (procurement m)) (borrowedBy_m m) (division_m m) now (snd ?r1)"
    using assms(3) by (rule marked_borrow_write)
  then have "marked (id_p (procurement m)) (borrowedBy_m m) (division_m m) now (snd ?r2)"
    by (rule marked_updateStackNumbersForFolder)
  then show ?thesis using assms(1,2) f
    by (simp add: saveBorrowChanges_def Let_def marked_toast)
qed

text \<open>
  Claim C3. With the borrow dialog open on \<open>m\<close>: when \<open>borrowedBy\<close> or \<open>division\<close> is
  empty, \<^verbatim>\<open>saveBorrowChanges\<close> raises the toast "Please fill in all required fields" and
  nothing else changes: the dialog stays, no call reaches the store client, and the store
  is as before. When both are filled in, the first call it issues is
  \<^verbatim>\<open>updateProcurement\<close> on the record's id with status \<^verbatim>\<open>'active'\<close> (borrowed), the
  \<open>borrowedBy\<close> and \<open>division\<close> supplied and \<open>borrowedDate\<close> the current time; and when the
  store accepts that call, every record with that id holds these four values when the
  handler ends.
\<close>

theorem saveBorrowChanges_validation:
  "(borrowedBy_m m = [] \<or> division_m m = [] \<longrightarrow>
      saveBorrowChanges accepts now procurements (Some m) w =
        (Some m, w\<lparr>toasts := toasts w @ [ToastError ''Please fill in all required fields'']\<rparr>))
   \<and> (borrowedBy_m m \<noteq> [] \<and> division_m m \<noteq> [] \<longrightarrow>
      (\<exists>rest. calls (snd (saveBorrowChanges accepts now procurements (Some m) w)) =
         calls w @ UpdateProcurement (id_p (procurement m))
           [SetStatus Active, SetBorrowedBy (borrowedBy_m m), SetDivision (division_m m),
            SetBorrowedDate now] # rest)
      \<and> (accepts (length (calls w)) \<longrightarrow>
           (\<forall>p\<in>set (procurementStore (snd (saveBorrowChanges accepts now procurements (Some m) w))).
              id_p p = id_p (procurement m) \<longrightarrow>
              status p = Active \<and> borrowedBy p = Some (borrowedBy_m m)
              \<and> division p = Some (division_m m) \<and> borrowedDate p = Some now)))"
proof (intro conjI impI)
  assume "borrowedBy_m m = [] \<or> division_m m = []"
  then show "saveBorrowChanges accepts now procurements (Some m) w =
        (Some m, w\<lparr>toasts := toasts w @ [ToastError ''Please fill in all required fields'']\<rparr>)"
    by (auto simp: saveBorrowChanges_def toast_def)
next
  assume "borrowedBy_m m \<noteq> [] \<and> division_m m \<noteq> []"
  then show "\<exists>rest. calls (snd (saveBorrowChanges accepts now procurements (Some m) w)) =
         calls w @ UpdateProcurement (id_p (procurement m))
           [SetStatus Active, SetBorrowedBy (borrowedBy_m m), SetDivision (division_m m),
            SetBorrowedDate now] # rest"
    using saveBorrowChanges_first_call [of m accepts now procurements w] by simp
next
  assume a: "borrowedBy_m m \<noteq> [] \<and> division_m m \<noteq> []" and b: "accepts (length (calls w))"
  then have "marked (id_p (procurement m)) (borrowedBy_m m) (division_m m) now
           (snd (saveBorrowChanges accepts now procurements (Some m) w))"
    using saveBorrowChanges_marked [of m accepts w now procurements] by simp
  then show "\<forall>p\<in>set (procurementStore (snd (saveBorrowChanges accepts now procurements (Some m) w))).
              id_p p = id_p (procurement m) \<longrightarrow>
              status p = Active \<and> borrowedBy p = Some (borrowedBy_m m)
              \<and> division p = Some (division_m m) \<and> borrowedDate p = Some now"
    by (auto simp: marked_def list_all_iff borrowedAs_def)
qed

theorem saveBorrowChanges_validation_witness:
  "division_m borrowNoDivision = []
   \<and> snd (saveBorrowChanges allAccepted nowStamp [filed] (Some borrowNoDivision) world0) =
       world0\<lparr>toasts := [ToastError ''Please fill in all required fields'']\<rparr>
   \<and> borrowedBy_m borrowFiled \<noteq> [] \<and> division_m borrowFiled \<noteq> []
   \<and> hd (calls (snd (saveBorrowChanges allAccepted nowStamp [filed] (Some borrowFiled) world0))) =
       UpdateProcurement ''r1''
         [SetStatus Active, SetBorrowedBy ''Ann'', SetDivision ''Records'',
          SetBorrowedDate nowStamp]
   \<and> allAccepted (length (calls world0))
   \<and> map id_p (procurementStore
         (snd (saveBorrowChanges allAccepted nowStamp [filed] (Some borrowFiled) world0))) = [''r1'']
   \<and> list_all (\<lambda>p. status p = Active \<and> borrowedBy p = Some ''Ann''
                    \<and> division p = Some ''Records'' \<and> borrowedDate p = Some nowStamp)
        (procurementStore
           (snd (saveBorrowChanges allAccepted nowStamp [filed] (Some borrowFiled) world0)))"
proof -
  let ?end = "snd (saveBorrowChanges allAccepted nowStamp [filed] (Some borrowFiled) world0)"
  have e: "division_m borrowNoDivision = []" by (simp add: borrowNoDivision_def)
  have n: "borrowedBy_m borrowFiled \<noteq> [] \<and> division_m borrowFiled \<noteq> []"
    by (simp add: borrowFiled_def)
  have a: "allAccepted (length (calls world0))" by (simp add: allAccepted_def)
  have "saveBorrowChanges allAccepted nowStamp [filed] (Some borrowNoDivision) world0 =
        (Some borrowNoDivision,
         world0\<lparr>toasts := toasts world0 @ [ToastError ''Please fill in all required fields'']\<rparr>)"
    using e
    by (intro saveBorrowChanges_validation
          [of borrowNoDivision allAccepted nowStamp "[filed]" world0, THEN conjunct1, THEN mp])
       simp
  then have 1: "snd (saveBorrowChanges allAccepted nowStamp [filed] (Some borrowNoDivision) world0) =
       world0\<lparr>toasts := [ToastError ''Please fill in all required fields'']\<rparr>"
    by (simp add: world0_def)
  have c0: "calls world0 = []" by (simp add: world0_def)
  have i0: "id_p (procurement borrowFiled) = ''r1''"
    by (simp add: borrowFiled_def filed_def day1_def)
  have b0: "borrowedBy_m borrowFiled = ''Ann''" "division_m borrowFiled = ''Records''"
    by (simp_all add: borrowFiled_def)
  note filledIn = saveBorrowChanges_validation
          [of borrowFiled allAccepted nowStamp "[filed]" world0, THEN conjunct2, THEN mp, OF n]
  from filledIn obtain rest where "calls ?end =
         calls world0 @ UpdateProcurement (id_p (procurement borrowFiled))
           [SetStatus Active, SetBorrowedBy (borrowedBy_m borrowFiled),
            SetDivision (division_m borrowFiled), SetBorrowedDate nowStamp] # rest"
    by blast
  then have 2: "hd (calls ?end) =
       UpdateProcurement ''r1''
         [SetStatus Active, SetBorrowedBy ''Ann'', SetDivision ''Records'',
          SetBorrowedDate nowStamp]"
    by (simp only: c0 i0 b0 append_Nil list.sel)
  have ids: "map id_p (procurementStore ?end) = [''r1'']"
    by (simp add: saveBorrowChanges_def filed_def day1_def borrowFiled_def world0_def
        allAccepted_def updateProcurement_def updateStackNumbersForFolder_def
        calculateStackNumbers_def availableInFolder_def Let_def toast_def)
  then have "id_p ` set (procurementStore ?end) = set [''r1'']"
    by (metis list.set_map)
  then have all: "\<forall>p\<in>set (procurementStore ?end). id_p p = ''r1''"
    by auto
  from filledIn [THEN conjunct2, THEN mp, OF a]
  have "\<forall>p\<in>set (procurementStore ?end). id_p p = ''r1'' \<longrightarrow>
      status p = Active \<and> borrowedBy p = Some ''Ann''
      \<and> division p = Some ''Records'' \<and> borrowedDate p = Some nowStamp"
    by (simp only: i0 b0)
  with all have 3: "list_all (\<lambda>p. status p = Active \<and> borrowedBy p = Some ''Ann''
                    \<and> division p = Some ''Records'' \<and> borrowedDate p = Some nowStamp)
        (procurementStore ?end)"
    unfolding list_all_iff by blast
  from e n a 1 2 ids 3 show ?thesis by (intro conjI) simp_all
qed

text \<open>
  Renumbering after the borrow write: when every call is accepted and the record of the
  dialog is in the snapshot, archived, under an id no other record shares, the record with
  that id ends borrowed and with a stack number.
\<close>

lemma accepted_fst: "\<forall>n. accepts n \<Longrightarrow> fst (updateProcurement accepts pid ups w)"
  by (simp add: updateProcurement_def Let_def)

lemma numbered_write:
  assumes "numbered pid w"
  shows "numbered pid (snd (updateProcurement accepts pid' [SetStackNumber (Some n)] w))"
proof -
  have "\<And>p. (id_p p = pid \<longrightarrow> stackNumber p \<noteq> None) \<Longrightarrow>
      (id_p (if id_p p = pid' then fold applyUpdate [SetStackNumber (Some n)] p else p) = pid \<longrightarrow>
       stackNumber (if id_p p = pid' then fold applyUpdate [SetStackNumber (Some n)] p else p) \<noteq> None)"
    by simp
  then show ?thesis
    using assms unfolding numbered_def store_updateProcurement list_all_iff
    by (cases "accepts (length (calls w))") (simp_all only: if_True if_False set_map ball_simps, blast+)
qed

lemma numbered_first_write:
  assumes "accepts (length (calls w))"
  shows "numbered pid (snd (updateProcurement accepts pid [SetStackNumber (Some n)] w))"
  unfolding numbered_def store_updateProcurement list_all_iff
  using assms by (simp only: if_True set_map ball_simps) simp

lemma numbered_writeStackNumbers_keep:
  "numbered pid w \<Longrightarrow> numbered pid (snd (writeStackNumbers accepts es w))"
proof (induction es arbitrary: w)
  case Nil
  then show ?case by simp
next
  case (Cons e es)
  obtain procId stackNum where e: "e = (procId, stackNum)" by (cases e)
  let ?r = "updateProcurement accepts procId [SetStackNumber (Some stackNum)] w"
  have m: "numbered pid (snd ?r)" using Cons.prems by (rule numbered_write)
  show ?case
  proof (cases "fst ?r")
    case True
    then show ?thesis using Cons.IH [OF m] by (simp add: e Let_def)
  next
    case False
    then show ?thesis using m by (simp add: e Let_def)
  qed
qed

lemma numbered_writeStackNumbers:
  assumes all: "\<forall>n. accepts n" and key: "pid \<in> fst ` set es"
  shows "numbered pid (snd (writeStackNumbers accepts es w))"
  using key
proof (induction es arbitrary: w)
  case Nil
  then show ?case by simp
next
  case (Cons e es)
  obtain procId stackNum where e: "e = (procId, stackNum)" by (cases e)
  let ?r = "updateProcurement accepts procId [SetStackNumber (Some stackNum)] w"
  have f: "fst ?r" using all by (rule accepted_fst)
  show ?case
  proof (cases "procId = pid")
    case True
    have "numbered pid (snd ?r)"
      unfolding True using all by (intro numbered_first_write) simp
    then have "numbered pid (snd (writeStackNumbers accepts es (snd ?r)))"
      by (rule numbered_writeStackNumbers_keep)
    with f show ?thesis by (simp add: e Let_def)
  next
    case False
    with Cons.prems e have "pid \<in> fst ` set es" by auto
    then have "numbered pid (snd (writeStackNumbers accepts es (snd ?r)))"
      by (rule Cons.IH)
    with f show ?thesis by (simp add: e Let_def)
  qed
qed

lemma numbered_clear_other:
  assumes "numbered pid w" "pid' \<noteq> pid"
  shows "numbered pid (snd (updateProcurement accepts pid' [SetStackNumber None] w))"
proof -
  have "\<And>p. (id_p p = pid \<longrightarrow> stackNumber p \<noteq> None) \<Longrightarrow>
      (id_p (if id_p p = pid' then fold applyUpdate [SetStackNumber None] p else p) = pid \<longrightarrow>
       stackNumber (if id_p p = pid' then fold applyUpdate [SetStackNumber None] p else p) \<noteq> None)"
    using assms(2) by simp
  then show ?thesis
    using assms(1) unfolding numbered_def store_updateProcurement list_all_iff
    by (cases "accepts (length (calls w))") (simp_all only: if_True if_False set_map ball_simps, blast+)
qed

lemma numbered_clearBorrowed:
  assumes "pid \<notin> id_p ` set bs"
  shows "numbered pid w \<Longrightarrow> numbered pid (snd (clearBorrowed accepts bs w))"
  using assms
proof (induction bs arbitrary: w)
  case Nil
  then show ?case by simp
next
  case (Cons p ps)
  let ?r = "updateProcurement accepts (id_p p) [SetStackNumber None] w"
  have ne: "id_p p \<noteq> pid" and rest: "pid \<notin> id_p ` set ps" using Cons.prems(2) by auto
  have m: "numbered pid (snd ?r)" using Cons.prems(1) ne by (rule numbered_clear_other)
  show ?case
  proof (cases "stackNumber p = None")
    case True
    then show ?thesis using Cons.IH [OF Cons.prems(1) rest] by simp
  next
    case some: False
    show ?thesis
    proof (cases "fst ?r")
      case True
      then show ?thesis using Cons.IH [OF m rest] by (simp add: Let_def some)
    next
      case False
      then show ?thesis using m by (simp add: Let_def some)
    qed
  qed
qed

lemma accepted_writeStackNumbers:
  "\<forall>n. accepts n \<Longrightarrow> fst (writeStackNumbers accepts es w)"
proof (induction es arbitrary: w)
  case Nil
  show ?case by simp
next
  case (Cons e es)
  obtain procId stackNum where e: "e = (procId, stackNum)" by (cases e)
  show ?case using Cons by (simp add: e Let_def accepted_fst)
qed

lemma accepted_clearBorrowed:
  "\<forall>n. accepts n \<Longrightarrow> fst (clearBorrowed accepts bs w)"
  by (induction bs arbitrary: w) (simp_all add: Let_def accepted_fst)

lemma numbered_toast: "numbered pid (toast x w) = numbered pid w"
  by (simp add: numbered_def toast_def)

lemma borrowed_record_keeps_stack_number:
  assumes all: "\<forall>n. accepts n"
    and filled: "borrowedBy_m m \<noteq> []" "division_m m \<noteq> []"
    and row: "procurement m \<in> set procurements" "status (procurement m) = Archived"
    and key: "\<forall>p\<in>set procurements. id_p p = id_p (procurement m) \<longrightarrow> p = procurement m"
  shows "\<forall>p\<in>set (procurementStore (snd (saveBorrowChanges accepts now procurements (Some m) w))).
           id_p p = id_p (procurement m) \<longrightarrow> status p = Active \<and> stackNumber p \<noteq> None"
proof -
  let ?pid = "id_p (procurement m)"
  let ?fid = "folderId (procurement m)"
  let ?r1 = "updateProcurement accepts ?pid
     [SetStatus Active, SetBorrowedBy (borrowedBy_m m), SetDivision (division_m m),
      SetBorrowedDate now] w"
  let ?w = "writeStackNumbers accepts (calculateStackNumbers procurements ?fid) (snd ?r1)"
  let ?bs = "filter (\<lambda>p. folderId p = ?fid \<and> status p = Active) procurements"
  let ?c = "clearBorrowed accepts ?bs (snd ?w)"
  have f1: "fst ?r1" using all by (rule accepted_fst)
  have fw: "fst ?w" using all by (rule accepted_writeStackNumbers)
  have fc: "fst ?c" using all by (rule accepted_clearBorrowed)
  have final: "snd (saveBorrowChanges accepts now procurements (Some m) w) =
      toast (ToastSuccess ''File marked as borrowed'') (snd ?c)"
    using filled f1 fw fc
    by (simp add: saveBorrowChanges_def updateStackNumbersForFolder_def Let_def)
  have "?pid \<in> id_p ` set (filter (\<lambda>p. folderId p = ?fid \<and> status p = Archived) procurements)"
    using row by auto
  then have "?pid \<in> dom (map_of (calculateStackNumbers procurements ?fid))"
    by (simp add: calculateStackNumbers_def dom_assignStack availableInFolder_set)
  then have "?pid \<in> fst ` set (calculateStackNumbers procurements ?fid)"
    by (simp add: dom_map_of_conv_image_fst)
  then have nw: "numbered ?pid (snd ?w)"
    using all by (intro numbered_writeStackNumbers)
  have "?pid \<notin> id_p ` set ?bs"
  proof
    assume "?pid \<in> id_p ` set ?bs"
    then obtain p where "p \<in> set procurements" "status p = Active" "id_p p = ?pid" by auto
    with key row(2) show False by auto
  qed
  then have "numbered ?pid (snd ?c)" using nw by (rule numbered_clearBorrowed)
  then have n: "numbered ?pid (snd (saveBorrowChanges accepts now procurements (Some m) w))"
    by (simp add: final numbered_toast)
  have "marked ?pid (borrowedBy_m m) (division_m m) now
           (snd (saveBorrowChanges accepts now procurements (Some m) w))"
    using filled all by (intro saveBorrowChanges_marked) simp_all
  with n show ?thesis
    by (simp add: numbered_def marked_def borrowedAs_def list_all_iff)
qed

text \<open>
  Claim C2. The claim says that after the transition from archived to borrowed the record
  has no stack number. On a store holding one archived record with stack number 1, with
  every call accepted, the record ends borrowed with stack number 1: the borrow write
  carries no \<open>stackNumber\<close> field, and the renumbering works on the snapshot of the records
  taken before the write, where the record is still archived, so it writes the record's
  position back and does not find the record among the borrowed ones.
\<close>

theorem saveBorrowChanges_stale_snapshot:
  "procurementStore (snd (saveBorrowChanges allAccepted nowStamp [filed] (Some borrowFiled) world0)) =
     [filed\<lparr>status := Active, borrowedBy := Some ''Ann'', division := Some ''Records'',
            borrowedDate := Some nowStamp, stackNumber := Some 1\<rparr>]
   \<and> calls (snd (saveBorrowChanges allAccepted nowStamp [filed] (Some borrowFiled) world0)) =
     [UpdateProcurement ''r1''
        [SetStatus Active, SetBorrowedBy ''Ann'', SetDivision ''Records'',
         SetBorrowedDate nowStamp],
      UpdateProcurement ''r1'' [SetStackNumber (Some 1)]]
   \<and> list_ex (\<lambda>p. status p = Active \<and> stackNumber p \<noteq> None)
       (procurementStore
          (snd (saveBorrowChanges allAccepted nowStamp [filed] (Some borrowFiled) world0)))"
  by (simp add: saveBorrowChanges_def filed_def day1_def borrowFiled_def world0_def allAccepted_def
     updateProcurement_def updateStackNumbersForFolder_def calculateStackNumbers_def
     availableInFolder_def Let_def toast_def)

section \<open>The main admin account\<close>

lemma admin_find:
  "find (\<lambda>u. id_u u = ''u1'') [clerk, mainAdmin] = Some mainAdmin"
  by (simp add: clerk_def mainAdmin_def)

text \<open>
  Claim C4. The main admin account is the user whose email is \<^verbatim>\<open>admin@gmail.com\<close>.
  \<^verbatim>\<open>handleDeleteUser\<close> on an id that the page's user list resolves to that account (in
  particular on the id of the account when no other user shares it), and \<^verbatim>\<open>toggleStatus\<close>
  on that account, raise an error toast and change nothing else: the log of store calls and
  the store are as before, so neither \<^verbatim>\<open>deleteUser\<close> nor \<^verbatim>\<open>updateUser\<close> was called.
  This holds whatever the answer to the confirmation dialog and whatever the store would
  accept.
\<close>

theorem admin_protected:
  "(find (\<lambda>u. id_u u = uid) users = Some u \<and> email u = ''admin@gmail.com'' \<longrightarrow>
      handleDeleteUser accepts confirmed users uid w =
        w\<lparr>toasts := toasts w @ [ToastError ''Cannot delete the main Admin user.'']\<rparr>)
   \<and> (u \<in> set users \<and> email u = ''admin@gmail.com''
        \<and> (\<forall>v\<in>set users. id_u v = id_u u \<longrightarrow> v = u) \<longrightarrow>
      handleDeleteUser accepts confirmed users (id_u u) w =
        w\<lparr>toasts := toasts w @ [ToastError ''Cannot delete the main Admin user.'']\<rparr>)
   \<and> (email u = ''admin@gmail.com'' \<longrightarrow>
      toggleStatus accepts u w =
        w\<lparr>toasts := toasts w @ [ToastError ''Cannot change status of main Admin user.'']\<rparr>)"
proof (intro conjI impI)
  assume "find (\<lambda>u. id_u u = uid) users = Some u \<and> email u = ''admin@gmail.com''"
  then show "handleDeleteUser accepts confirmed users uid w =
        w\<lparr>toasts := toasts w @ [ToastError ''Cannot delete the main Admin user.'']\<rparr>"
    by (simp add: handleDeleteUser_def toast_def)
next
  assume a: "u \<in> set users \<and> email u = ''admin@gmail.com''
        \<and> (\<forall>v\<in>set users. id_u v = id_u u \<longrightarrow> v = u)"
  have "find (\<lambda>v. id_u v = id_u u) users = Some u"
  proof (cases "find (\<lambda>v. id_u v = id_u u) users")
    case None
    with a show ?thesis by (auto simp: find_None_iff)
  next
    case (Some v)
    then have "v \<in> set users" "id_u v = id_u u"
      by (auto simp: find_Some_iff)
    with a Some show ?thesis by auto
  qed
  with a show "handleDeleteUser accepts confirmed users (id_u u) w =
        w\<lparr>toasts := toasts w @ [ToastError ''Cannot delete the main Admin user.'']\<rparr>"
    by (simp add: handleDeleteUser_def toast_def)
next
  assume "email u = ''admin@gmail.com''"
  then show "toggleStatus accepts u w =
        w\<lparr>toasts := toasts w @ [ToastError ''Cannot change status of main Admin user.'']\<rparr>"
    by (simp add: toggleStatus_def toast_def)
qed

theorem admin_protected_witness:
  "find (\<lambda>u. id_u u = ''u1'') [clerk, mainAdmin] = Some mainAdmin
   \<and> email mainAdmin = ''admin@gmail.com''
   \<and> mainAdmin \<in> set [clerk, mainAdmin]
   \<and> list_all (\<lambda>v. id_u v \<noteq> id_u mainAdmin \<or> v = mainAdmin) [clerk, mainAdmin]
   \<and> calls (handleDeleteUser allAccepted True [clerk, mainAdmin] ''u1'' userWorld) = []
   \<and> userStore (handleDeleteUser allAccepted True [clerk, mainAdmin] ''u1'' userWorld)
       = [mainAdmin, clerk]
   \<and> handleDeleteUser allAccepted True [clerk, mainAdmin] (id_u mainAdmin) userWorld
       = userWorld\<lparr>toasts := [ToastError ''Cannot delete the main Admin user.'']\<rparr>
   \<and> calls (toggleStatus allAccepted mainAdmin userWorld) = []
   \<and> userStore (toggleStatus allAccepted mainAdmin userWorld) = [mainAdmin, clerk]"
proof -
  have e: "email mainAdmin = ''admin@gmail.com''" by (simp add: mainAdmin_def)
  have m: "mainAdmin \<in> set [clerk, mainAdmin]" by simp
  have k: "list_all (\<lambda>v. id_u v \<noteq> id_u mainAdmin \<or> v = mainAdmin) [clerk, mainAdmin]"
    by (simp add: clerk_def mainAdmin_def)
  then have k': "\<forall>v\<in>set [clerk, mainAdmin]. id_u v = id_u mainAdmin \<longrightarrow> v = mainAdmin"
    unfolding list_all_iff by blast
  note t = admin_protected [of "''u1''" "[clerk, mainAdmin]" mainAdmin allAccepted True userWorld]
  from t admin_find e
  have d: "handleDeleteUser allAccepted True [clerk, mainAdmin] ''u1'' userWorld =
        userWorld\<lparr>toasts := toasts userWorld @ [ToastError ''Cannot delete the main Admin user.'']\<rparr>"
    by blast
  from t e m k'
  have d': "handleDeleteUser allAccepted True [clerk, mainAdmin] (id_u mainAdmin) userWorld =
        userWorld\<lparr>toasts := toasts userWorld @ [ToastError ''Cannot delete the main Admin user.'']\<rparr>"
    by blast
  from t e
  have g: "toggleStatus allAccepted mainAdmin userWorld =
        userWorld\<lparr>toasts := toasts userWorld @ [ToastError ''Cannot change status of main Admin user.'']\<rparr>"
    by blast
  have tw: "toasts userWorld = []" by (simp add: userWorld_def)
  show ?thesis
    unfolding d d' g tw using admin_find e m k by (simp add: userWorld_def)
qed

section \<open>Filtering and sorting the record list\<close>

lemma statusString_cases: "statusString s = ''active'' \<or> statusString s = ''archived''"
  by (cases s) (simp_all add: statusString_def)

lemma matchesStatus_all:
  "matchesStatus [''active'', ''archived''] p = matchesStatus [] p"
  using statusString_cases [of "status p"] by (auto simp: matchesStatus_def)

lemma matchesAll_status_all:
  "matchesAll filters [''active'', ''archived''] = matchesAll filters []"
  by (rule ext) (simp add: matchesAll_def matchesStatus_all)

text \<open>
  Claim C5. With the other criteria, the sort key and the direction fixed, the record list
  computed with no status selected is the list computed with both statuses, \<^verbatim>\<open>'active'\<close>
  (borrowed) and \<^verbatim>\<open>'archived'\<close>, selected: the same records in the same order. An empty
  selection filters nothing out.
\<close>

theorem empty_status_filter_is_all:
  "filteredProcurements localeCompare procurements filters [] sortField sortDirection =
   filteredProcurements localeCompare procurements filters [''active'', ''archived'']
     sortField sortDirection"
  by (simp add: filteredProcurements_def matchesAll_status_all)

lemma sample_filtered:
  "filteredProcurements byLength [day1, day3, day2] noFilters [] SortDate Asc = [day2, day1, day3]"
  by (simp add: filteredProcurements_def matchesAll_def matchesSearch_def matchesCabinet_def
      matchesShelf_def matchesFolder_def matchesStatus_def matchesUrgency_def noFilters_def
      toLowerCase_def sortCallback_def comparison_def day1_def day2_def day3_def)

theorem empty_status_filter_is_all_witness:
  "filteredProcurements byLength [day1, day3, day2] noFilters [''active'', ''archived''] SortDate Asc
     = [day2, day1, day3]"
  using empty_status_filter_is_all [of byLength "[day1, day3, day2]" noFilters SortDate Asc]
    sample_filtered by simp

lemma matchesAll_all_cabinets:
  "matchesAll (filters\<lparr>cabinetId_f := ''all_cabinets''\<rparr>) statusFilters =
   matchesAll (filters\<lparr>cabinetId_f := []\<rparr>) statusFilters"
  by (rule ext) (simp add: matchesAll_def matchesSearch_def matchesCabinet_def
      matchesShelf_def matchesFolder_def matchesUrgency_def)

lemma matchesAll_all_shelves:
  "matchesAll (filters\<lparr>shelfId_f := ''all_shelves''\<rparr>) statusFilters =
   matchesAll (filters\<lparr>shelfId_f := []\<rparr>) statusFilters"
  by (rule ext) (simp add: matchesAll_def matchesSearch_def matchesCabinet_def
      matchesShelf_def matchesFolder_def matchesUrgency_def)

lemma matchesAll_all_folders:
  "matchesAll (filters\<lparr>folderId_f := ''all_folders''\<rparr>) statusFilters =
   matchesAll (filters\<lparr>folderId_f := []\<rparr>) statusFilters"
  by (rule ext) (simp add: matchesAll_def matchesSearch_def matchesCabinet_def
      matchesShelf_def matchesFolder_def matchesUrgency_def)

text \<open>
  Claim C10. Setting the cabinet filter to \<^verbatim>\<open>'all_cabinets'\<close>, the shelf filter to
  \<^verbatim>\<open>'all_shelves'\<close> or the folder filter to \<^verbatim>\<open>'all_folders'\<close> gives the record list that
  the empty filter gives, whatever the other criteria: every record passes the clause of a
  filter set to its sentinel.
\<close>

theorem location_sentinels:
  "filteredProcurements localeCompare procurements (filters\<lparr>cabinetId_f := ''all_cabinets''\<rparr>)
       statusFilters sortField sortDirection
     = filteredProcurements localeCompare procurements (filters\<lparr>cabinetId_f := []\<rparr>)
         statusFilters sortField sortDirection
   \<and> filteredProcurements localeCompare procurements (filters\<lparr>shelfId_f := ''all_shelves''\<rparr>)
       statusFilters sortField sortDirection
     = filteredProcurements localeCompare procurements (filters\<lparr>shelfId_f := []\<rparr>)
         statusFilters sortField sortDirection
   \<and> filteredProcurements localeCompare procurements (filters\<lparr>folderId_f := ''all_folders''\<rparr>)
       statusFilters sortField sortDirection
     = filteredProcurements localeCompare procurements (filters\<lparr>folderId_f := []\<rparr>)
         statusFilters sortField sortDirection
   \<and> matchesCabinet (filters\<lparr>cabinetId_f := ''all_cabinets''\<rparr>) p
   \<and> matchesShelf (filters\<lparr>shelfId_f := ''all_shelves''\<rparr>) p
   \<and> matchesFolder (filters\<lparr>folderId_f := ''all_folders''\<rparr>) p"
  by (simp add: filteredProcurements_def matchesAll_all_cabinets matchesAll_all_shelves
      matchesAll_all_folders matchesCabinet_def matchesShelf_def matchesFolder_def)

theorem location_sentinels_witness:
  "filteredProcurements byLength [day1, day3, day2] (noFilters\<lparr>cabinetId_f := ''all_cabinets''\<rparr>)
       [] SortDate Asc = [day2, day1, day3]
   \<and> filteredProcurements byLength [day1, day3, day2] (noFilters\<lparr>shelfId_f := ''all_shelves''\<rparr>)
       [] SortDate Asc = [day2, day1, day3]
   \<and> filteredProcurements byLength [day1, day3, day2] (noFilters\<lparr>folderId_f := ''all_folders''\<rparr>)
       [] SortDate Asc = [day2, day1, day3]"
proof -
  have c: "noFilters\<lparr>cabinetId_f := []\<rparr> = noFilters" "noFilters\<lparr>shelfId_f := []\<rparr> = noFilters"
    "noFilters\<lparr>folderId_f := []\<rparr> = noFilters"
    by (simp_all add: noFilters_def)
  show ?thesis
    using location_sentinels [of byLength "[day1, day3, day2]" noFilters "[]" SortDate Asc day1]
    unfolding c sample_filtered by simp
qed

lemma sorted_date_asc:
  "sorted_wrt (\<lambda>x y. dateAdded y \<le> dateAdded x) (sort_cmp (sortCallback lc SortDate Asc) xs)"
proof (rule sorted_wrt_sort_cmp)
  show "transp (\<lambda>x y. dateAdded y \<le> dateAdded x)" by (auto simp: transp_def)
qed (auto simp: sortCallback_def comparison_def)

lemma sorted_date_desc:
  "sorted_wrt (\<lambda>x y. dateAdded x \<le> dateAdded y) (sort_cmp (sortCallback lc SortDate Desc) xs)"
proof (rule sorted_wrt_sort_cmp)
  show "transp (\<lambda>x y. dateAdded x \<le> dateAdded y)" by (auto simp: transp_def)
qed (auto simp: sortCallback_def comparison_def)

text \<open>
  Claim C8. For the date key the sort callback puts \<open>a\<close> before \<open>b\<close> in the ascending
  direction exactly when \<open>a\<close> was added later than \<open>b\<close>, and in the descending direction
  exactly when it was added earlier; for the description and PR-number keys the ascending
  callback is \<^verbatim>\<open>localeCompare\<close> of the two values itself, smallest first. So the list sorted
  by date runs from newest to oldest when ascending and from oldest to newest when
  descending, and of two records added at different times the later one comes first when
  ascending and last when descending.
\<close>

theorem date_sort_newest_first:
  "(sortCallback localeCompare SortDate Asc a b < 0 \<longleftrightarrow> dateAdded b < dateAdded a)
   \<and> (sortCallback localeCompare SortDate Desc a b < 0 \<longleftrightarrow> dateAdded a < dateAdded b)
   \<and> sortCallback localeCompare SortName Asc a b = localeCompare (description a) (description b)
   \<and> sortCallback localeCompare SortPrNumber Asc a b = localeCompare (prNumber a) (prNumber b)
   \<and> sorted_wrt (\<lambda>x y. dateAdded y \<le> dateAdded x)
        (filteredProcurements localeCompare procurements filters statusFilters SortDate Asc)
   \<and> sorted_wrt (\<lambda>x y. dateAdded x \<le> dateAdded y)
        (filteredProcurements localeCompare procurements filters statusFilters SortDate Desc)
   \<and> (dateAdded a < dateAdded b \<longrightarrow>
        sort_cmp (sortCallback localeCompare SortDate Asc) [a, b] = [b, a]
        \<and> sort_cmp (sortCallback localeCompare SortDate Asc) [b, a] = [b, a]
        \<and> sort_cmp (sortCallback localeCompare SortDate Desc) [a, b] = [a, b]
        \<and> sort_cmp (sortCallback localeCompare SortDate Desc) [b, a] = [a, b])"
proof -
  have "sorted_wrt (\<lambda>x y. dateAdded y \<le> dateAdded x)
        (filteredProcurements localeCompare procurements filters statusFilters SortDate Asc)"
    unfolding filteredProcurements_def by (rule sorted_date_asc)
  moreover have "sorted_wrt (\<lambda>x y. dateAdded x \<le> dateAdded y)
        (filteredProcurements localeCompare procurements filters statusFilters SortDate Desc)"
    unfolding filteredProcurements_def by (rule sorted_date_desc)
  ultimately show ?thesis
    by (simp add: sortCallback_def comparison_def)
qed

theorem date_sort_newest_first_witness:
  "dateAdded day1 < dateAdded day2
   \<and> sort_cmp (sortCallback byLength SortDate Asc) [day1, day2] = [day2, day1]
   \<and> sort_cmp (sortCallback byLength SortDate Desc) [day2, day1] = [day1, day2]"
proof -
  have d: "dateAdded day1 < dateAdded day2" by (simp add: day1_def day2_def)
  note t = date_sort_newest_first [of byLength day1 day2 "[]" noFilters "[]"]
  from t have "dateAdded day1 < dateAdded day2 \<longrightarrow>
        sort_cmp (sortCallback byLength SortDate Asc) [day1, day2] = [day2, day1]
        \<and> sort_cmp (sortCallback byLength SortDate Asc) [day2, day1] = [day2, day1]
        \<and> sort_cmp (sortCallback byLength SortDate Desc) [day1, day2] = [day1, day2]
        \<and> sort_cmp (sortCallback byLength SortDate Desc) [day2, day1] = [day1, day2]"
    by (elim conjE)
  with d show ?thesis by simp
qed

lemma unnumbered_before_large:
  assumes "stackNumber a = None" "stackNumber b = Some n" "999 < n"
  shows "sortCallback localeCompare SortStackNumber Asc a b < 0"
  using assms by (simp add: sortCallback_def comparison_def stackOr999_def)

text \<open>
  Claim C7. The claim says that in the ascending sort by stack number every record without
  a stack number comes after every record that has one, whatever the numbers are. The
  callback replaces a missing stack number by 999 (its comment: "files without stack
  numbers go to end"), so a record without a stack number sorts before a record whose
  stack number is 1000.
\<close>

theorem stack_sort_sentinel_999:
  "filteredProcurements localeCompare [thousandth, day1] noFilters [] SortStackNumber Asc
     = [day1, thousandth]
   \<and> stackNumber day1 = None \<and> stackNumber thousandth = Some 1000"
  by (simp add: filteredProcurements_def matchesAll_def matchesSearch_def matchesCabinet_def
      matchesShelf_def matchesFolder_def matchesStatus_def matchesUrgency_def noFilters_def
      toLowerCase_def sortCallback_def comparison_def stackOr999_def day1_def day2_def
      thousandth_def)

section \<open>Paging\<close>

lemma page_beyond_last_is_empty:
  assumes "totalPages filtered < currentPage"
  shows "paginatedProcurements filtered currentPage = []"
proof -
  have "int (length filtered) \<le> (currentPage - 1) * 20"
    using assms unfolding totalPages_def itemsPerPage_def by presburger
  then show ?thesis
    by (simp add: paginatedProcurements_def slice_def itemsPerPage_def Let_def)
qed

text \<open>
  Claim C6. The claim says that a page number beyond the last page shows the last page.
  With 21 records (\<open>twentyOne\<close>) the last page is page 2 and shows the 21st record; page 3
  shows nothing.
  The Next button keeps the page number within the page count, but the displayed slice is
  taken at whatever the page number is, and a change of filter that shortens the list
  leaves the page number as it was.
\<close>

theorem page_beyond_last_not_clamped:
  "totalPages twentyOne = 2
   \<and> paginatedProcurements twentyOne 2 = [numberedRecord 21]
   \<and> paginatedProcurements twentyOne 3 = []
   \<and> paginatedProcurements twentyOne 3 \<noteq> paginatedProcurements twentyOne (totalPages twentyOne)"
  by (simp add: totalPages_def paginatedProcurements_def slice_def itemsPerPage_def Let_def
      twentyOne_def drop_map take_map)

section \<open>User validation\<close>

lemma testClass_iff: "testClass cls s = (\<exists>c\<in>set s. c \<in> set cls)"
  by (simp add: testClass_def list_ex_iff)

lemma endsWith_toLowerCase:
  "endsWith s suffix \<Longrightarrow> endsWith (toLowerCase s) (toLowerCase suffix)"
proof -
  assume a: "endsWith s suffix"
  then have "drop (length s - length suffix) (map toLowerChar s) = map toLowerChar suffix"
    by (metis drop_map endsWith_def)
  with a show ?thesis by (simp add: endsWith_def toLowerCase_def)
qed

lemma toLowerCase_gmail: "toLowerCase ''@gmail.com'' = ''@gmail.com''"
  by (simp add: toLowerCase_def toLowerChar_def)

lemma validateUser_accepts:
  "fst (validateUser data) =
     (name data \<noteq> [] \<and> email data \<noteq> [] \<and> password data \<noteq> []
      \<and> endsWith (toLowerCase (email data)) ''@gmail.com''
      \<and> 8 \<le> length (password data)
      \<and> (\<exists>c\<in>set (password data). c \<in> set upperCaseClass)
      \<and> (\<exists>c\<in>set (password data). c \<in> set digitClass)
      \<and> (\<exists>c\<in>set (password data). c \<in> set specialClass))"
  by (simp add: validateUser_def testClass_iff not_less)

lemma validateUser_message:
  "\<not> fst (validateUser data) \<Longrightarrow> \<exists>msg. snd (validateUser data) = [ToastError msg]"
  by (simp add: validateUser_def split: if_splits)

lemma validateUser_silent: "fst (validateUser data) \<Longrightarrow> snd (validateUser data) = []"
  by (simp add: validateUser_def split: if_splits)

lemma validateUser_otherDomain:
  "validateUser otherDomainForm = (False, [ToastError ''Email must be a '@gmail.com' address''])"
  by (simp add: validateUser_def otherDomainForm_def endsWith_def toLowerCase_def toLowerChar_def)

lemma validateUser_validForm: "validateUser validForm = (True, [])"
  by (simp add: validateUser_def validForm_def endsWith_def toLowerCase_def toLowerChar_def
      testClass_def upperCaseClass_def digitClass_def specialClass_def)

text \<open>
  Claim C9, as stated, fails: the form with email \<^verbatim>\<open>A@GMAIL.COM\<close> is accepted although
  its email does not end with \<^verbatim>\<open>@gmail.com\<close>.
\<close>

theorem validateUser_upper_case_domain:
  "fst (validateUser upperCaseForm) \<and> \<not> endsWith (email upperCaseForm) ''@gmail.com''
   \<and> \<not> validateUserAsStated upperCaseForm"
  by (simp add: validateUser_def upperCaseForm_def endsWith_def toLowerCase_def toLowerChar_def
      testClass_def upperCaseClass_def digitClass_def specialClass_def validateUserAsStated_def)

text \<open>
  Claim C9, amended. \<^verbatim>\<open>validateUser\<close> accepts exactly when name, email and password are
  non-empty, the email converted to lower case ends with \<^verbatim>\<open>@gmail.com\<close>, and the password
  has at least 8 characters, an upper-case letter, a digit and a character of the
  punctuation set. Every form that meets the condition as the specification words it is
  accepted. A rejection raises exactly one error toast and an acceptance none. The form
  with email \<^verbatim>\<open>a@other.com\<close> is rejected for its domain, and the form with email
  \<^verbatim>\<open>Valid1!@gmail.com\<close> and password \<^verbatim>\<open>Abc12345!\<close> is accepted.
\<close>

theorem validateUser_rules:
  "fst (validateUser data) =
     (name data \<noteq> [] \<and> email data \<noteq> [] \<and> password data \<noteq> []
      \<and> endsWith (toLowerCase (email data)) ''@gmail.com''
      \<and> 8 \<le> length (password data)
      \<and> (\<exists>c\<in>set (password data). c \<in> set upperCaseClass)
      \<and> (\<exists>c\<in>set (password data). c \<in> set digitClass)
      \<and> (\<exists>c\<in>set (password data). c \<in> set specialClass))
   \<and> (validateUserAsStated data \<longrightarrow> fst (validateUser data))
   \<and> (\<not> fst (validateUser data) \<longrightarrow> (\<exists>msg. snd (validateUser data) = [ToastError msg]))
   \<and> (fst (validateUser data) \<longrightarrow> snd (validateUser data) = [])
   \<and> validateUser otherDomainForm = (False, [ToastError ''Email must be a '@gmail.com' address''])
   \<and> validateUser validForm = (True, [])"
proof -
  have "validateUserAsStated data \<longrightarrow> fst (validateUser data)"
    using endsWith_toLowerCase [of "email data" "''@gmail.com''"]
    unfolding validateUser_accepts validateUserAsStated_def toLowerCase_gmail by blast
  then show ?thesis
    using validateUser_accepts [of data] validateUser_message [of data]
      validateUser_silent [of data] validateUser_otherDomain validateUser_validForm
    by blast
qed

theorem validateUser_rules_witness:
  "validateUserAsStated validForm \<and> fst (validateUser validForm)
   \<and> snd (validateUser validForm) = []
   \<and> \<not> fst (validateUser otherDomainForm)
   \<and> (\<exists>msg. snd (validateUser otherDomainForm) = [ToastError msg])"
proof -
  have s: "validateUserAsStated validForm"
    by (simp add: validateUserAsStated_def validForm_def endsWith_def
        upperCaseClass_def digitClass_def specialClass_def)
  note t = validateUser_rules [of validForm]
  note u = validateUser_rules [of otherDomainForm]
  from t s have a: "fst (validateUser validForm)" by blast
  with t have b: "snd (validateUser validForm) = []" by blast
  from u have "validateUser otherDomainForm =
      (False, [ToastError ''Email must be a '@gmail.com' address''])" by blast
  then have c: "\<not> fst (validateUser otherDomainForm)" by simp
  with u have d: "\<exists>msg. snd (validateUser otherDomainForm) = [ToastError msg]" by blast
  from s a b c d show ?thesis by blast
qed

end
